theory Spec2Isabelle
  imports Complex_Main "HOL-Library.Log_Nat" "HOL-Library.Sublist" "HOL-Library.Multiset"
begin

section \<open>Python floats: binary64 with round-to-nearest-even\<close>

text \<open>
  The scoring code of \<^verbatim>\<open>optimizer.py\<close> computes with Python floats.  A float is
  modelled by the rational number it denotes, and every operation rounds its exact
  result to the nearest binary64 number, ties to the even significand.  The exponent
  range is not bounded: infinities, NaN and subnormal numbers are not modelled.  Every
  value the scoring code computes from 64-bit integer cells is zero or far inside the
  normal range, where this is IEEE 754 arithmetic.
\<close>

definition pow2 :: "int \<Rightarrow> rat" where
  "pow2 e = (if 0 \<le> e then 2 ^ nat e else 1 / 2 ^ nat (- e))"

text \<open>\<open>ilog2 x\<close> is the binary exponent of a positive \<open>x\<close>: \<open>2^e \<le> x < 2^(e+1)\<close>.\<close>

definition ilog2 :: "rat \<Rightarrow> int" where
  "ilog2 x = (if 1 \<le> x then int (floorlog 2 (nat \<lfloor>x\<rfloor>)) - 1
              else - int (floorlog 2 (nat (\<lceil>1 / x\<rceil> - 1))))"

definition round_half_even :: "rat \<Rightarrow> int" where
  "round_half_even x =
     (let f = \<lfloor>x\<rfloor>; d = x - of_int f
      in if d < 1 / 2 then f
         else if 1 / 2 < d then f + 1
         else if even f then f else f + 1)"

text \<open>Rounding to 53 significant bits: the unit in the last place of \<open>x\<close> is \<open>2^(e-52)\<close>.\<close>

definition fl :: "rat \<Rightarrow> rat" where
  "fl x = (if x = 0 then 0
           else let u = pow2 (ilog2 \<bar>x\<bar> - 52)
                in of_int (round_half_even (x / u)) * u)"

definition fadd :: "rat \<Rightarrow> rat \<Rightarrow> rat" where
  "fadd a b = fl (a + b)"

definition fsub :: "rat \<Rightarrow> rat \<Rightarrow> rat" where
  "fsub a b = fl (a - b)"

definition fmul :: "rat \<Rightarrow> rat \<Rightarrow> rat" where
  "fmul a b = fl (a * b)"

text \<open>An integer operand of a mixed operation is converted to a float first.\<close>

definition float_of_int :: "int \<Rightarrow> rat" where
  "float_of_int i = fl (of_int i)"

datatype error = ZeroDivisionError | InfeasibleSelection

text \<open>
  \<open>ZeroDivisionError\<close> is what Python's true division raises on a zero divisor.
  \<open>InfeasibleSelection\<close> is the failure the specification names for the selection;
  no statement of \<^verbatim>\<open>optimizer.py\<close> raises it.
\<close>

definition fdiv :: "rat \<Rightarrow> rat \<Rightarrow> error + rat" where
  "fdiv a b = (if b = 0 then Inl ZeroDivisionError else Inr (fl (a / b)))"


section \<open>The event catalog (\<^verbatim>\<open>pcs_scraper.py\<close>)\<close>

definition RACE_DISPLAY_NAMES :: "(string \<times> string) list" where
  "RACE_DISPLAY_NAMES =
    [(''omloop'', ''Omloop Het Nieuwsblad''),
     (''kuurne'', ''Kuurne-Brussel-Kuurne''),
     (''paris-nice'', ''Paris-Nice''),
     (''tirreno'', ''Tirreno-Adriatico''),
     (''strade-bianche'', ''Strade Bianche''),
     (''milano-sanremo'', ''Milano-Sanremo''),
     (''brugge'', ''Ronde van Brugge''),
     (''e3'', ''E3 Saxo Classic''),
     (''gent-wevelgem'', ''Gent-Wevelgem''),
     (''dwars'', ''Dwars door Vlaanderen''),
     (''ronde-van-vlaanderen'', ''Ronde van Vlaanderen''),
     (''scheldeprijs'', ''Scheldeprijs''),
     (''paris-roubaix'', ''Paris-Roubaix''),
     (''brabantse-pijl'', ''Brabantse Pijl''),
     (''amstel'', ''Amstel Gold Race''),
     (''fleche-wallonne'', ''Waalse Pijl''),
     (''luik'', ''Luik-Bastenaken-Luik'')]"

text \<open>Iterating over the dictionary yields its keys in insertion order.\<close>

definition race_names :: "string list" where
  "race_names = map fst RACE_DISPLAY_NAMES"

record race_mapping =
  primary :: string
  secondary :: "string option"
  weight :: rat

text \<open>A float literal of the source denotes the binary64 number nearest to it.\<close>

definition RACE_QUALITY_MAP :: "(string \<times> race_mapping) list" where
  "RACE_QUALITY_MAP =
    [(''omloop'', \<lparr>primary = ''cobbles'', secondary = Some ''hill'', weight = fl (7 / 10)\<rparr>),
     (''kuurne'', \<lparr>primary = ''sprint'', secondary = Some ''cobbles'', weight = fl (6 / 10)\<rparr>),
     (''paris-nice'', \<lparr>primary = ''gc'', secondary = Some ''climb'', weight = fl (3 / 10)\<rparr>),
     (''tirreno'', \<lparr>primary = ''gc'', secondary = Some ''climb'', weight = fl (3 / 10)\<rparr>),
     (''strade-bianche'', \<lparr>primary = ''hill'', secondary = Some ''punch'', weight = fl (7 / 10)\<rparr>),
     (''milano-sanremo'', \<lparr>primary = ''sprint'', secondary = Some ''punch'', weight = fl (6 / 10)\<rparr>),
     (''brugge'', \<lparr>primary = ''sprint'', secondary = Some ''cobbles'', weight = fl (4 / 10)\<rparr>),
     (''e3'', \<lparr>primary = ''cobbles'', secondary = Some ''hill'', weight = fl (7 / 10)\<rparr>),
     (''gent-wevelgem'', \<lparr>primary = ''sprint'', secondary = Some ''cobbles'', weight = fl (6 / 10)\<rparr>),
     (''dwars'', \<lparr>primary = ''cobbles'', secondary = Some ''hill'', weight = fl (6 / 10)\<rparr>),
     (''ronde-van-vlaanderen'', \<lparr>primary = ''cobbles'', secondary = Some ''hill'', weight = fl (9 / 10)\<rparr>),
     (''scheldeprijs'', \<lparr>primary = ''sprint'', secondary = None, weight = fl (5 / 10)\<rparr>),
     (''paris-roubaix'', \<lparr>primary = ''cobbles'', secondary = None, weight = fl (9 / 10)\<rparr>),
     (''brabantse-pijl'', \<lparr>primary = ''hill'', secondary = Some ''punch'', weight = fl (5 / 10)\<rparr>),
     (''amstel'', \<lparr>primary = ''hill'', secondary = Some ''punch'', weight = fl (7 / 10)\<rparr>),
     (''fleche-wallonne'', \<lparr>primary = ''punch'', secondary = Some ''climb'', weight = fl (7 / 10)\<rparr>),
     (''luik'', \<lparr>primary = ''punch'', secondary = Some ''climb'', weight = fl (8 / 10)\<rparr>)]"

definition KOPMAN_MULTIPLIERS :: "(nat \<times> rat) list" where
  "KOPMAN_MULTIPLIERS = [(1, 3), (2, 5 / 2), (3, 2)]"


section \<open>Riders and the scoring model (\<^verbatim>\<open>optimizer.py\<close>)\<close>

text \<open>
  One row of the table that \<^verbatim>\<open>load_enriched_data\<close> builds.  The boolean columns
  \<^verbatim>\<open>race_<code>\<close> are kept as the list \<open>races\<close> of the codes whose column is true;
  \<open>num_races\<close> is the separate count column read from the sheet.
\<close>

record rider =
  market_rider_id :: int
  name :: string
  rider_team :: string
  rider_type :: string
  price :: int
  price_m :: rat
  q_gc :: int
  q_climb :: int
  q_tt :: int
  q_sprint :: int
  q_punch :: int
  q_hill :: int
  q_cobbles :: int
  num_races :: int
  races :: "string list"

text \<open>\<^verbatim>\<open>row.get(f"race_{race}", False)\<close>\<close>

definition row_get_race :: "'a rider_scheme \<Rightarrow> string \<Rightarrow> bool" where
  "row_get_race row race = (race \<in> set (races row))"

text \<open>\<^verbatim>\<open>row.get(f"q_{quality}", 0)\<close>\<close>

definition get_quality_score :: "'a rider_scheme \<Rightarrow> string \<Rightarrow> int" where
  "get_quality_score row quality =
     (case map_of [(''gc'', q_gc row), (''climb'', q_climb row), (''tt'', q_tt row),
                   (''sprint'', q_sprint row), (''punch'', q_punch row),
                   (''hill'', q_hill row), (''cobbles'', q_cobbles row)] quality of
        Some v \<Rightarrow> v
      | None \<Rightarrow> 0)"


text \<open>
  Every entry of the catalog gives its weight, so the default \<^verbatim>\<open>0.5\<close> of
  \<^verbatim>\<open>mapping.get("weight", 0.5)\<close> is never taken.
\<close>

definition calculate_race_score :: "'a rider_scheme \<Rightarrow> string \<Rightarrow> rat" where
  "calculate_race_score row race =
     (if \<not> row_get_race row race then 0
      else case map_of RACE_QUALITY_MAP race of
        None \<Rightarrow> 0
      | Some mapping \<Rightarrow>
          let primary_score = get_quality_score row (primary mapping);
              secondary_score = (case secondary mapping of
                                   Some s \<Rightarrow> get_quality_score row s
                                 | None \<Rightarrow> 0);
              quality_score = fadd (fmul (float_of_int primary_score) (fl (7 / 10)))
                                   (fmul (float_of_int secondary_score) (fl (3 / 10)))
          in fmul quality_score (weight mapping))"

definition calculate_expected_points :: "'a rider_scheme \<Rightarrow> string \<Rightarrow> rat" where
  "calculate_expected_points row race =
     (let score = calculate_race_score row race
      in if score \<le> 0 then 0
         else if 7 \<le> score then fmul 40 (fl (7 / 10))
         else if 5 \<le> score then fmul 30 (fl (5 / 10))
         else if 3 \<le> score then fmul 20 (fl (35 / 100))
         else if fl (15 / 10) \<le> score then fmul 10 (fl (2 / 10))
         else fmul 5 (fl (1 / 10)))"

definition calculate_total_expected_points :: "'a rider_scheme \<Rightarrow> rat" where
  "calculate_total_expected_points row =
     foldl (\<lambda>total race. fadd total (calculate_expected_points row race)) 0 race_names"

definition calculate_value_score :: "'a rider_scheme \<Rightarrow> error + rat" where
  "calculate_value_score row =
     (let expected = calculate_total_expected_points row
      in if 0 < price_m row then fdiv expected (price_m row) else Inr 0)"


subsection \<open>Enriched rows\<close>

text \<open>
  \<^verbatim>\<open>enrich_with_scores\<close> adds one column \<^verbatim>\<open>exp_<code>\<close> per race of
  \<^verbatim>\<open>RACE_DISPLAY_NAMES\<close>, their row sum \<^verbatim>\<open>exp_total\<close> and \<^verbatim>\<open>value_score\<close>.
  The value score is computed from the columns of the input row only.
\<close>

record scored_rider = rider +
  exp_cols :: "(string \<times> rat) list"
  exp_total :: rat
  value_score :: rat

definition expected_columns :: "rider \<Rightarrow> (string \<times> rat) list" where
  "expected_columns row = map (\<lambda>race. (race, calculate_expected_points row race)) race_names"

definition enrich_row :: "rider \<Rightarrow> error + scored_rider" where
  "enrich_row row =
     (let cols = expected_columns row;
          total = foldl fadd 0 (map snd cols)
      in case calculate_value_score row of
           Inl e \<Rightarrow> Inl e
         | Inr v \<Rightarrow> Inr (rider.extend row (scored_rider.fields cols total v)))"

fun enrich_rows :: "rider list \<Rightarrow> error + scored_rider list" where
  "enrich_rows [] = Inr []"
| "enrich_rows (row # rows) =
     (case enrich_row row of
        Inl e \<Rightarrow> Inl e
      | Inr r \<Rightarrow> (case enrich_rows rows of Inl e \<Rightarrow> Inl e | Inr rs \<Rightarrow> Inr (r # rs)))"

text \<open>
  A data frame either has the score columns or has none of them: the frames of this
  program come from \<^verbatim>\<open>load_enriched_data\<close>, with or without a pass through
  \<^verbatim>\<open>enrich_with_scores\<close>.
\<close>

datatype frame = Plain "rider list" | Enriched "scored_rider list"

definition enrich_with_scores :: "rider list \<Rightarrow> error + frame" where
  "enrich_with_scores df =
     (case enrich_rows df of Inl e \<Rightarrow> Inl e | Inr rows \<Rightarrow> Inr (Enriched rows))"

text \<open>The row that \<open>enrich_row\<close> returns when the value score does not fail.\<close>

definition scored :: "rider \<Rightarrow> scored_rider" where
  "scored row =
     rider.extend row
       (scored_rider.fields (expected_columns row)
          (foldl fadd 0 (map snd (expected_columns row)))
          (case calculate_value_score row of Inr v \<Rightarrow> v | Inl e \<Rightarrow> 0))"


section \<open>The roster selector\<close>

text \<open>
  \<^verbatim>\<open>optimize_team\<close> states an integer linear program over one binary variable per
  candidate and hands it to the CBC solver through PuLP.  The program is data:
  the objective coefficients, the cardinality constraint, the budget constraint and
  the variables fixed to one and to zero.
\<close>

record lp_problem =
  lp_objective :: "rat list"
  lp_team_size :: int
  lp_prices :: "int list"
  lp_budget :: int
  lp_ones :: "nat list"
  lp_zeros :: "nat list"

text \<open>
  The solver is not code of the repository.  It is a parameter of the model: a function
  from the program to the value that \<^verbatim>\<open>varValue\<close> holds for each variable after
  \<^verbatim>\<open>prob.solve\<close> (\<open>None\<close> when the solver left it unset).
\<close>

type_synonym solver = "lp_problem \<Rightarrow> rat option list"

definition var_value :: "rat option list \<Rightarrow> nat \<Rightarrow> rat option" where
  "var_value vals i = (if i < length vals then vals ! i else None)"

text \<open>\<^verbatim>\<open>candidates[candidates["market_rider_id"] == rid].index\<close>, first element\<close>

fun first_index :: "('a \<Rightarrow> bool) \<Rightarrow> 'a list \<Rightarrow> nat option" where
  "first_index P [] = None"
| "first_index P (x # xs) = (if P x then Some 0 else map_option Suc (first_index P xs))"

fun locked_indices :: "scored_rider list \<Rightarrow> int list \<Rightarrow> nat list" where
  "locked_indices candidates [] = []"
| "locked_indices candidates (rid # rids) =
     (case first_index (\<lambda>r. market_rider_id r = rid) candidates of
        None \<Rightarrow> locked_indices candidates rids
      | Some i \<Rightarrow> i # locked_indices candidates rids)"

text \<open>
  The candidates: the rows with a positive race count, then, for each forced-include
  id that is not among them yet, the rows of the table with that id.
\<close>

definition candidate_pool :: "scored_rider list \<Rightarrow> int list \<Rightarrow> scored_rider list" where
  "candidate_pool df locked_in =
     foldl (\<lambda>candidates rid.
              if rid \<notin> set (map market_rider_id candidates)
              then candidates @ filter (\<lambda>r. market_rider_id r = rid) df
              else candidates)
           (filter (\<lambda>r. 0 < num_races r) df) locked_in"

definition build_problem ::
    "scored_rider list \<Rightarrow> int \<Rightarrow> int \<Rightarrow> int list \<Rightarrow> int list \<Rightarrow> lp_problem" where
  "build_problem candidates budget team_size locked_in locked_out =
     \<lparr>lp_objective = map exp_total candidates,
      lp_team_size = team_size,
      lp_prices = map price candidates,
      lp_budget = budget,
      lp_ones = locked_indices candidates locked_in,
      lp_zeros = locked_indices candidates locked_out\<rparr>"

definition ensure_scores :: "frame \<Rightarrow> error + scored_rider list" where
  "ensure_scores df = (case df of Plain rows \<Rightarrow> enrich_rows rows | Enriched rows \<Rightarrow> Inr rows)"

text \<open>
  The last sort is by descending \<^verbatim>\<open>exp_total\<close>; rows with equal totals keep their
  order here (pandas leaves their order open).
\<close>

definition optimize_team ::
    "solver \<Rightarrow> frame \<Rightarrow> int \<Rightarrow> int \<Rightarrow> int list \<Rightarrow> int list \<Rightarrow> error + frame" where
  "optimize_team solve df budget team_size locked_in locked_out =
     (case ensure_scores df of
        Inl e \<Rightarrow> Inl e
      | Inr rows \<Rightarrow>
          let candidates = candidate_pool rows locked_in;
              n = length candidates;
              prob = build_problem candidates budget team_size locked_in locked_out;
              vals = solve prob;
              selected_indices = filter (\<lambda>i. var_value vals i = Some 1) [0..<n];
              team = map (\<lambda>i. candidates ! i) selected_indices
          in Inr (Enriched (sort_key (\<lambda>r. - exp_total r) team)))"


section \<open>The captaincy strategist\<close>

record kopman_entry =
  rank :: nat
  rider_name :: string
  rider_id :: int
  multiplier :: rat
  base_points :: rat
  boosted_points :: rat

text \<open>\<^verbatim>\<open>rider[exp_col]\<close>; every row of an enriched frame has the cell.\<close>

definition exp_points :: "scored_rider \<Rightarrow> string \<Rightarrow> rat" where
  "exp_points row race = (case map_of (exp_cols row) race of Some v \<Rightarrow> v | None \<Rightarrow> 0)"

text \<open>\<^verbatim>\<open>KOPMAN_MULTIPLIERS[rank]\<close>, looked up for the ranks 1 to 3 only.\<close>

definition kopman_multiplier :: "nat \<Rightarrow> rat" where
  "kopman_multiplier r = (case map_of KOPMAN_MULTIPLIERS r of Some m \<Rightarrow> m | None \<Rightarrow> 0)"

definition race_strategy :: "scored_rider list \<Rightarrow> string \<Rightarrow> kopman_entry list" where
  "race_strategy team race =
     (let racing = filter (\<lambda>r. row_get_race r race) team
      in if length racing = 0 then []
         else
           let racing = sort_key (\<lambda>r. - exp_points r race) racing;
               kopmannen =
                 map (\<lambda>(i, rider).
                        \<lparr>rank = i + 1, rider_name = name rider,
                         rider_id = market_rider_id rider,
                         multiplier = kopman_multiplier (i + 1),
                         base_points = exp_points rider race,
                         boosted_points =
                           fmul (exp_points rider race) (kopman_multiplier (i + 1))\<rparr>)
                     (takeWhile (\<lambda>(i, rider). \<not> 3 \<le> i) (enumerate 0 racing));
               remaining =
                 map (\<lambda>(i, rider).
                        \<lparr>rank = i + 1, rider_name = name rider,
                         rider_id = market_rider_id rider,
                         multiplier = 1,
                         base_points = exp_points rider race,
                         boosted_points = exp_points rider race\<rparr>)
                     (filter (\<lambda>(i, rider). \<not> i < 3) (enumerate 0 racing))
           in kopmannen @ remaining)"

text \<open>
  The strategy dictionary, in insertion order.  A frame without the score columns has
  no column \<^verbatim>\<open>exp_<code>\<close>, so every race is skipped.
\<close>

definition calculate_kopman_strategy :: "frame \<Rightarrow> (string \<times> kopman_entry list) list" where
  "calculate_kopman_strategy team =
     (case team of
        Plain rows \<Rightarrow> []
      | Enriched rows \<Rightarrow> map (\<lambda>race. (race, race_strategy rows race)) race_names)"

definition calculate_team_total_with_kopmannen ::
    "frame \<Rightarrow> (string \<times> kopman_entry list) list \<Rightarrow> rat" where
  "calculate_team_total_with_kopmannen team strategy =
     foldl (\<lambda>total (race, riders).
              foldl (\<lambda>total rider. fadd total (boosted_points rider)) total riders)
           0 strategy"

text \<open>The entry \<^verbatim>\<open>kopman_bonus\<close> of \<^verbatim>\<open>get_team_summary\<close>.\<close>

definition kopman_bonus :: "scored_rider list \<Rightarrow> (string \<times> kopman_entry list) list \<Rightarrow> rat" where
  "kopman_bonus team strategy =
     (let total_with_kopman = calculate_team_total_with_kopmannen (Enriched team) strategy;
          total_without = foldl fadd 0 (map exp_total team)
      in fsub total_with_kopman total_without)"

section \<open>Notions of the specification and example data\<close>

text \<open>
  The definitions of this section are not code of the repository.  They name what the
  claims speak of, following the words of the specification, and fix the concrete
  riders that the examples evaluate.
\<close>

subsection \<open>Scoring\<close>


text \<open>\<open>quality = primary_quality * 0.7 + secondary_quality * 0.3\<close>, in float arithmetic.\<close>

definition weighted_quality :: "int \<Rightarrow> int \<Rightarrow> rat" where
  "weighted_quality primary_quality secondary_quality =
     fadd (fmul (float_of_int primary_quality) (fl (7 / 10)))
          (fmul (float_of_int secondary_quality) (fl (3 / 10)))"

definition secondary_quality :: "'a rider_scheme \<Rightarrow> race_mapping \<Rightarrow> int" where
  "secondary_quality row m =
     (case secondary m of Some s \<Rightarrow> get_quality_score row s | None \<Rightarrow> 0)"

definition qualities_in_range :: "'a rider_scheme \<Rightarrow> bool" where
  "qualities_in_range row \<longleftrightarrow>
     0 \<le> q_gc row \<and> q_gc row \<le> 10 \<and> 0 \<le> q_climb row \<and> q_climb row \<le> 10 \<and>
     0 \<le> q_tt row \<and> q_tt row \<le> 10 \<and> 0 \<le> q_sprint row \<and> q_sprint row \<le> 10 \<and>
     0 \<le> q_punch row \<and> q_punch row \<le> 10 \<and> 0 \<le> q_hill row \<and> q_hill row \<le> 10 \<and>
     0 \<le> q_cobbles row \<and> q_cobbles row \<le> 10"

text \<open>\<^verbatim>\<open>r["Price"] / 1_000_000\<close> of \<^verbatim>\<open>load_enriched_data\<close>\<close>

definition price_in_millions :: "int \<Rightarrow> rat" where
  "price_in_millions p = fl (of_int p / 1000000)"

text \<open>
  An example row: a rider with the given id, price, qualities for hill, cobbles and
  punch, race count and races; every other quality is 0.
\<close>

definition example_rider :: "int \<Rightarrow> int \<Rightarrow> int \<Rightarrow> int \<Rightarrow> int \<Rightarrow> int \<Rightarrow> string list \<Rightarrow> rider" where
  "example_rider rid p hill cobbles punch n rs =
     \<lparr>market_rider_id = rid, name = ''rider'', rider_team = ''team'', rider_type = ''type'',
      price = p, price_m = price_in_millions p,
      q_gc = 0, q_climb = 0, q_tt = 0, q_sprint = 0, q_punch = punch,
      q_hill = hill, q_cobbles = cobbles, num_races = n, races = rs\<rparr>"

definition peter :: rider where
  "peter = example_rider 1 6000000 10 10 0 1 [''ronde-van-vlaanderen'']"

definition free_agent :: rider where
  "free_agent = example_rider 2 0 3 0 3 1 [''brabantse-pijl'']"


subsection \<open>Selection\<close>

text \<open>
  An assignment of the binary variables is a list of booleans, one per candidate;
  \<open>select_rows\<close> keeps the entries of a list whose variable is set.
\<close>

definition select_rows :: "bool list \<Rightarrow> 'a list \<Rightarrow> 'a list" where
  "select_rows a xs = map snd (filter fst (zip a xs))"

definition lp_feasible :: "lp_problem \<Rightarrow> bool list \<Rightarrow> bool" where
  "lp_feasible p a \<longleftrightarrow>
     length a = length (lp_objective p) \<and>
     int (length (filter id a)) = lp_team_size p \<and>
     sum_list (select_rows a (lp_prices p)) \<le> lp_budget p \<and>
     list_all (\<lambda>i. i < length a \<and> a ! i) (lp_ones p) \<and>
     list_all (\<lambda>i. i < length a \<and> \<not> a ! i) (lp_zeros p)"

definition lp_value :: "lp_problem \<Rightarrow> bool list \<Rightarrow> rat" where
  "lp_value p a = sum_list (select_rows a (lp_objective p))"

definition var_values :: "bool list \<Rightarrow> rat option list" where
  "var_values a = map (\<lambda>b. Some (if b then 1 else 0)) a"

text \<open>
  An exact solver returns, for every program that has a feasible assignment, a feasible
  assignment of the greatest objective value.  Nothing is asked of it on a program
  without one.
\<close>

definition exact_solver :: "solver \<Rightarrow> bool" where
  "exact_solver solve \<longleftrightarrow>
     (\<forall>p. (\<exists>a. lp_feasible p a) \<longrightarrow>
        (\<exists>a. lp_feasible p a \<and> solve p = var_values a \<and>
             (\<forall>b. lp_feasible p b \<longrightarrow> lp_value p b \<le> lp_value p a)))"

text \<open>
  A reference solver for the examples: exhaustive search over all assignments, keeping
  the first of the greatest value.  It leaves every variable unset when no assignment
  is feasible.
\<close>

definition better :: "lp_problem \<Rightarrow> bool list \<Rightarrow> bool list \<Rightarrow> bool list" where
  "better p best a = (if lp_value p best < lp_value p a then a else best)"

definition exhaustive_solver :: solver where
  "exhaustive_solver p =
     (case filter (lp_feasible p) (List.n_lists (length (lp_objective p)) [False, True]) of
        [] \<Rightarrow> replicate (length (lp_objective p)) None
      | a # as \<Rightarrow> var_values (foldl (better p) a as))"

text \<open>
  A roster the request admits: rows of the candidate pool, in its order, of the asked
  size, within the budget, with every forced-include id and no forced-exclude id.
\<close>

definition valid_roster ::
    "scored_rider list \<Rightarrow> int \<Rightarrow> int \<Rightarrow> int list \<Rightarrow> int list \<Rightarrow> scored_rider list \<Rightarrow> bool" where
  "valid_roster pool budget team_size locked_in locked_out roster \<longleftrightarrow>
     subseq roster pool \<and>
     int (length roster) = team_size \<and>
     sum_list (map price roster) \<le> budget \<and>
     set locked_in \<subseteq> set (map market_rider_id roster) \<and>
     set (map market_rider_id roster) \<inter> set locked_out = {}"

definition best_roster ::
    "scored_rider list \<Rightarrow> int \<Rightarrow> int \<Rightarrow> int list \<Rightarrow> int list \<Rightarrow> scored_rider list \<Rightarrow> bool" where
  "best_roster pool budget team_size locked_in locked_out team \<longleftrightarrow>
     (\<forall>roster. valid_roster pool budget team_size locked_in locked_out roster \<longrightarrow>
        sum_list (map exp_total roster) \<le> sum_list (map exp_total team))"

text \<open>The rows that \<^verbatim>\<open>optimize_team\<close> works on: those of the frame, scored if they were not.\<close>

definition scored_rows :: "frame \<Rightarrow> scored_rider list" where
  "scored_rows df = (case df of Plain rows \<Rightarrow> map scored rows | Enriched rows \<Rightarrow> rows)"

text \<open>
  An example row of an enriched frame: id, price, the per-race projections and the
  total.  It starts in the races it has a projection for.
\<close>

definition example_scored :: "int \<Rightarrow> int \<Rightarrow> (string \<times> rat) list \<Rightarrow> rat \<Rightarrow> scored_rider" where
  "example_scored rid p cols points =
     rider.extend (example_rider rid p 0 0 0 (int (length cols)) (map fst cols))
       (scored_rider.fields cols points 0)"

text \<open>
  The end-to-end example of the specification: three riders priced 30, 15 and 10
  million with totals 50, 30 and 15.
\<close>

definition three_riders :: "scored_rider list" where
  "three_riders =
     [example_scored 1 30000000 [(''omloop'', 28), (''e3'', 22)] 50,
      example_scored 2 15000000 [(''omloop'', 15), (''e3'', 15)] 30,
      example_scored 3 10000000 [(''omloop'', 15)] 15]"


subsection \<open>Captaincy\<close>

text \<open>The multiplier table of the specification, by rank.\<close>

definition rank_multiplier :: "nat \<Rightarrow> rat" where
  "rank_multiplier k = (if k = 1 then 3 else if k = 2 then 5 / 2 else if k = 3 then 2 else 1)"

text \<open>A row whose per-race projections are values of the scoring model.\<close>

definition projected_by_model :: "scored_rider \<Rightarrow> bool" where
  "projected_by_model row \<longleftrightarrow>
     list_all (\<lambda>race. exp_points row race \<in> {0, 1 / 2, 2, 7, 15, 28}) race_names"

text \<open>
  A ranking of the starters of a race in a roster: the starters, every one once, by
  descending projection for that race.
\<close>

definition ranking_of :: "scored_rider list \<Rightarrow> string \<Rightarrow> scored_rider list \<Rightarrow> bool" where
  "ranking_of team race ranked \<longleftrightarrow>
     mset ranked = mset (filter (\<lambda>r. row_get_race r race) team) \<and>
     sorted_wrt (\<lambda>a b. exp_points b race \<le> exp_points a race) ranked"

text \<open>The entry that \<^verbatim>\<open>calculate_kopman_strategy\<close> writes for the rider at position \<open>i\<close>
  (from 0) of the sorted starters.\<close>

definition entry_at :: "string \<Rightarrow> nat \<times> scored_rider \<Rightarrow> kopman_entry" where
  "entry_at race = (\<lambda>(i, rider).
     \<lparr>rank = i + 1, rider_name = name rider, rider_id = market_rider_id rider,
      multiplier = (if i < 3 then kopman_multiplier (i + 1) else 1),
      base_points = exp_points rider race,
      boosted_points = (if i < 3 then fmul (exp_points rider race) (kopman_multiplier (i + 1))
                        else exp_points rider race)\<rparr>)"

text \<open>Five riders in the Omloop, two pairs of them level; the last two also ride the E3.\<close>

definition five_riders :: "scored_rider list" where
  "five_riders =
     [example_scored 1 30000000 [(''omloop'', 15)] 15,
      example_scored 2 15000000 [(''omloop'', 28)] 28,
      example_scored 3 10000000 [(''omloop'', 7)] 7,
      example_scored 4 5000000 [(''omloop'', 15), (''e3'', 2)] 17,
      example_scored 5 5000000 [(''omloop'', 7), (''e3'', 7)] 14]"

lemma pow2_powi: "pow2 e = 2 powi e"
  by (simp add: pow2_def power_int_def field_simps)

lemma pow2_pos: "0 < pow2 e"
  by (simp add: pow2_powi zero_less_power_int)

lemma pow2_add: "pow2 (a + b) = pow2 a * pow2 b"
  by (simp add: pow2_powi power_int_add)

lemma pow2_mono: "a \<le> b \<Longrightarrow> pow2 a \<le> pow2 b"
  by (simp add: pow2_powi power_int_increasing)

lemma pow2_nat: "pow2 (int n) = 2 ^ n"
  by (simp add: pow2_def)

lemma pow2_neg_nat: "pow2 (- int n) = 1 / 2 ^ n"
  by (auto simp: pow2_def)

lemma ilog2_lower:
  assumes "0 < x"
  shows "pow2 (ilog2 x) \<le> x"
proof (cases "1 \<le> x")
  case True
  define n where "n = nat \<lfloor>x\<rfloor>"
  define k where "k = floorlog 2 n"
  from True have n_pos: "0 < n" by (simp add: n_def)
  from floorlog_bounds [OF n_pos, of 2] have b: "2 ^ (k - 1) \<le> n" "n < 2 ^ k"
    by (simp_all add: k_def)
  from b(2) n_pos have k_pos: "0 < k" by (cases k) simp_all
  have "ilog2 x = int (k - 1)" using True k_pos by (simp add: ilog2_def k_def n_def)
  then have "pow2 (ilog2 x) = 2 ^ (k - 1)" by (simp add: pow2_nat)
  also have "\<dots> = rat_of_nat (2 ^ (k - 1))" by simp
  also have "\<dots> \<le> rat_of_nat n" using b(1) by (simp only: of_nat_le_iff)
  also have "\<dots> = of_int \<lfloor>x\<rfloor>" using True by (simp add: n_def)
  also have "\<dots> \<le> x" by simp
  finally show ?thesis .
next
  case False
  define c where "c = \<lceil>1 / x\<rceil>"
  define m where "m = nat (c - 1)"
  define k where "k = floorlog 2 m"
  from False assms have y: "1 < 1 / x" by (simp add: field_simps)
  then have c2: "2 \<le> c" unfolding c_def by linarith
  then have m_pos: "0 < m" by (simp add: m_def)
  from floorlog_bounds [OF m_pos, of 2] have b: "2 ^ (k - 1) \<le> m" "m < 2 ^ k"
    by (simp_all add: k_def)
  have il: "ilog2 x = - int k" using False by (simp add: ilog2_def k_def m_def c_def)
  have "1 / x \<le> of_int c" by (simp add: c_def)
  also have "of_int c = rat_of_nat (m + 1)" using c2 by (simp add: m_def)
  also have "\<dots> \<le> rat_of_nat (2 ^ k)" using b(2) by (simp only: of_nat_le_iff; simp)
  finally have "1 / x \<le> 2 ^ k" by simp
  then have "1 / 2 ^ k \<le> x" using assms by (simp add: field_simps)
  then show ?thesis by (simp add: il pow2_neg_nat)
qed

lemma ilog2_upper:
  assumes "0 < x"
  shows "x < pow2 (ilog2 x + 1)"
proof (cases "1 \<le> x")
  case True
  define n where "n = nat \<lfloor>x\<rfloor>"
  define k where "k = floorlog 2 n"
  from True have n_pos: "0 < n" by (simp add: n_def)
  from floorlog_bounds [OF n_pos, of 2] have b: "2 ^ (k - 1) \<le> n" "n < 2 ^ k"
    by (simp_all add: k_def)
  have "ilog2 x + 1 = int k" using True by (simp add: ilog2_def k_def n_def)
  then have p: "pow2 (ilog2 x + 1) = 2 ^ k" by (simp add: pow2_nat)
  have "x < of_int \<lfloor>x\<rfloor> + 1" by linarith
  also have "\<dots> = rat_of_nat (n + 1)" using True by (simp add: n_def)
  also have "\<dots> \<le> rat_of_nat (2 ^ k)" using b(2) by (simp only: of_nat_le_iff; simp)
  finally show ?thesis by (simp add: p)
next
  case False
  define c where "c = \<lceil>1 / x\<rceil>"
  define m where "m = nat (c - 1)"
  define k where "k = floorlog 2 m"
  from False assms have y: "1 < 1 / x" by (simp add: field_simps)
  then have c2: "2 \<le> c" unfolding c_def by linarith
  then have m_pos: "0 < m" by (simp add: m_def)
  from floorlog_bounds [OF m_pos, of 2] have b: "2 ^ (k - 1) \<le> m" "m < 2 ^ k"
    by (simp_all add: k_def)
  from b(2) m_pos have k_pos: "0 < k" by (cases k) simp_all
  have il: "ilog2 x + 1 = - int (k - 1)" using False k_pos
    by (simp add: ilog2_def k_def m_def c_def)
  have "rat_of_nat (2 ^ (k - 1)) \<le> rat_of_nat m" using b(1) by (simp only: of_nat_le_iff)
  also have "rat_of_nat m = of_int c - 1" using c2 by (simp add: m_def)
  also have "\<dots> < 1 / x" unfolding c_def by linarith
  finally have "2 ^ (k - 1) < 1 / x" by simp
  then have "x < 1 / 2 ^ (k - 1)" using assms by (simp add: field_simps)
  then show ?thesis by (simp only: il pow2_neg_nat)
qed

lemma rhe_of_int: "round_half_even (of_int n) = n"
  by (simp add: round_half_even_def)

lemma rhe_le_floor1: "round_half_even x \<le> \<lfloor>x\<rfloor> + 1"
  by (simp add: round_half_even_def Let_def)

lemma rhe_ge_floor: "\<lfloor>x\<rfloor> \<le> round_half_even x"
  by (simp add: round_half_even_def Let_def)

lemma rhe_mono:
  assumes "x \<le> y"
  shows "round_half_even x \<le> round_half_even y"
proof (cases "\<lfloor>x\<rfloor> = \<lfloor>y\<rfloor>")
  case True
  define f where "f = \<lfloor>y\<rfloor>"
  have "x - of_int f \<le> y - of_int f" using assms by simp
  then show ?thesis
    unfolding round_half_even_def Let_def True f_def [symmetric]
    by (simp split: if_splits)
next
  case False
  with assms have "\<lfloor>x\<rfloor> < \<lfloor>y\<rfloor>" using floor_mono [of x y] by linarith
  then have "\<lfloor>x\<rfloor> + 1 \<le> \<lfloor>y\<rfloor>" by simp
  with rhe_le_floor1 [of x] rhe_ge_floor [of y] show ?thesis by linarith
qed

lemma rhe_ge: "rat_of_int n \<le> x \<Longrightarrow> n \<le> round_half_even x"
  using rhe_mono [of "of_int n" x] by (simp add: rhe_of_int)

lemma rhe_le: "x \<le> rat_of_int n \<Longrightarrow> round_half_even x \<le> n"
  using rhe_mono [of x "of_int n"] by (simp add: rhe_of_int)

lemma fl_zero: "fl 0 = 0"
  by (simp add: fl_def)

lemma fl_pos_def:
  "0 < x \<Longrightarrow> fl x = of_int (round_half_even (x / pow2 (ilog2 x - 52))) * pow2 (ilog2 x - 52)"
  by (simp add: fl_def Let_def)

lemma pow2_split: "pow2 e = pow2 52 * pow2 (e - 52)"
  using pow2_add [of 52 "e - 52"] by simp

lemma pow2_52: "pow2 52 = 2 ^ 52"
  using pow2_nat [of 52] by simp

lemma pow2_53: "pow2 53 = 2 ^ 53"
  using pow2_nat [of 53] by simp

text \<open>A positive number and its rounding lie in the same binade, ends included.\<close>

lemma fl_lower:
  assumes "0 < x"
  shows "pow2 (ilog2 x) \<le> fl x"
proof -
  define u where "u = pow2 (ilog2 x - 52)"
  have u_pos: "0 < u" by (simp add: u_def pow2_pos)
  have pu: "pow2 (ilog2 x) = 2 ^ 52 * u"
    using pow2_split [of "ilog2 x"] by (simp add: u_def pow2_52)
  from ilog2_lower [OF assms] have "2 ^ 52 * u \<le> x" by (simp add: pu)
  then have "rat_of_int (2 ^ 52) \<le> x / u" using u_pos by (simp add: field_simps)
  then have "2 ^ 52 \<le> round_half_even (x / u)" by (rule rhe_ge)
  then have "rat_of_int (2 ^ 52) \<le> of_int (round_half_even (x / u))"
    by (simp only: of_int_le_iff)
  then have "2 ^ 52 * u \<le> of_int (round_half_even (x / u)) * u"
    using u_pos by simp
  then show ?thesis using assms by (simp add: fl_pos_def pu u_def [symmetric])
qed

lemma fl_upper:
  assumes "0 < x"
  shows "fl x \<le> pow2 (ilog2 x + 1)"
proof -
  define u where "u = pow2 (ilog2 x - 52)"
  have u_pos: "0 < u" by (simp add: u_def pow2_pos)
  have pu: "pow2 (ilog2 x + 1) = 2 ^ 53 * u"
    using pow2_add [of 53 "ilog2 x - 52"] by (simp add: u_def pow2_53 add.commute)
  from ilog2_upper [OF assms] have "x \<le> 2 ^ 53 * u" by (simp add: pu)
  then have "x / u \<le> rat_of_int (2 ^ 53)" using u_pos by (simp add: field_simps)
  then have "round_half_even (x / u) \<le> 2 ^ 53" by (rule rhe_le)
  then have "rat_of_int (round_half_even (x / u)) \<le> of_int (2 ^ 53)"
    by (simp only: of_int_le_iff)
  then have "of_int (round_half_even (x / u)) * u \<le> 2 ^ 53 * u"
    using u_pos by simp
  then show ?thesis using assms by (simp add: fl_pos_def pu u_def [symmetric])
qed

lemma fl_pos: "0 < x \<Longrightarrow> 0 < fl x"
  using fl_lower [of x] pow2_pos [of "ilog2 x"] by linarith

lemma fl_nonneg: "0 \<le> x \<Longrightarrow> 0 \<le> fl x"
  using fl_pos [of x] by (cases "x = 0") (simp_all add: fl_zero less_le)

lemma ilog2_mono:
  assumes "0 < x" "x \<le> y"
  shows "ilog2 x \<le> ilog2 y"
proof (rule ccontr)
  assume "\<not> ilog2 x \<le> ilog2 y"
  then have "ilog2 y + 1 \<le> ilog2 x" by simp
  then have "pow2 (ilog2 y + 1) \<le> pow2 (ilog2 x)" by (rule pow2_mono)
  with ilog2_lower [OF assms(1)] ilog2_upper [of y] assms show False by linarith
qed

lemma fl_mono:
  assumes "0 \<le> x" "x \<le> y"
  shows "fl x \<le> fl y"
proof (cases "x = 0")
  case True
  with assms fl_nonneg [of y] show ?thesis by (simp add: fl_zero)
next
  case False
  with assms have x: "0 < x" and y: "0 < y" by simp_all
  show ?thesis
  proof (cases "ilog2 x = ilog2 y")
    case True
    define u where "u = pow2 (ilog2 y - 52)"
    have u_pos: "0 < u" by (simp add: u_def pow2_pos)
    from assms(2) u_pos have "x / u \<le> y / u" by (simp add: divide_right_mono)
    then have "round_half_even (x / u) \<le> round_half_even (y / u)" by (rule rhe_mono)
    then have "rat_of_int (round_half_even (x / u)) \<le> of_int (round_half_even (y / u))"
      by (simp only: of_int_le_iff)
    then have "of_int (round_half_even (x / u)) * u \<le> of_int (round_half_even (y / u)) * u"
      using u_pos by simp
    then show ?thesis using x y by (simp add: fl_pos_def True u_def [symmetric])
  next
    case False
    with ilog2_mono [OF x assms(2)] have "ilog2 x + 1 \<le> ilog2 y" by simp
    then have "pow2 (ilog2 x + 1) \<le> pow2 (ilog2 y)" by (rule pow2_mono)
    with fl_upper [OF x] fl_lower [OF y] show ?thesis by linarith
  qed
qed

text \<open>Numbers with at most 53 significant bits are not changed by rounding.\<close>

lemma fl_exact:
  assumes "0 < x" "x / pow2 (ilog2 x - 52) = of_int n"
  shows "fl x = x"
proof -
  have "0 < pow2 (ilog2 x - 52)" by (rule pow2_pos)
  then have "x = of_int n * pow2 (ilog2 x - 52)" using assms(2) by (simp add: field_simps)
  then show ?thesis using assms by (simp add: fl_pos_def rhe_of_int)
qed

lemma fl_half_int:
  assumes "0 \<le> k" "k < 2 ^ 53"
  shows "fl (of_int k / 2) = of_int k / 2"
proof (cases "k = 0")
  case True
  then show ?thesis by (simp add: fl_zero)
next
  case False
  define x :: rat where "x = of_int k / 2"
  from False assms have x: "0 < x" by (simp add: x_def)
  have "rat_of_int k < of_int (2 ^ 53)" using assms(2) by (simp only: of_int_less_iff)
  then have "x < 2 ^ 52" by (simp add: x_def)
  with ilog2_lower [OF x] have "pow2 (ilog2 x) < pow2 52" by (simp add: pow2_52)
  then have "ilog2 x < 52" using pow2_mono [of 52 "ilog2 x"] by (cases "52 \<le> ilog2 x") simp_all
  define j where "j = nat (51 - ilog2 x)"
  have j: "ilog2 x - 52 = - int (j + 1)" using \<open>ilog2 x < 52\<close> by (simp add: j_def)
  have "x / pow2 (ilog2 x - 52) = x * 2 ^ (j + 1)" by (simp only: j pow2_neg_nat) simp
  also have "\<dots> = of_int (k * 2 ^ j)" by (simp add: x_def)
  finally show ?thesis unfolding x_def [symmetric] by (rule fl_exact [OF x])
qed

subsection \<open>Evaluating floats\<close>

lemma floor_rat_numeral: "\<lfloor>numeral a / numeral b :: rat\<rfloor> = numeral a div numeral b"
  using floor_divide_of_int_eq [of "numeral a" "numeral b", where ?'a = rat] by simp

lemma ceiling_rat_numeral:
  "\<lceil>numeral a / numeral b :: rat\<rceil> = - (- numeral a div numeral b)"
  unfolding ceiling_def
  using floor_divide_of_int_eq [of "- numeral a" "numeral b", where ?'a = rat] by simp

lemmas fl_eval = fl_def ilog2_def pow2_def round_half_even_def Let_def compute_floorlog
  floor_rat_numeral ceiling_rat_numeral fmul_def fadd_def float_of_int_def

lemma fl_of_int:
  assumes "0 \<le> n" "n < 2 ^ 52"
  shows "fl (of_int n) = of_int n"
proof -
  have "fl (rat_of_int (2 * n) / 2) = of_int (2 * n) / 2"
    using assms by (intro fl_half_int) simp_all
  then show ?thesis by simp
qed

subsection \<open>The scoring model\<close>

lemma tier_values:
  "fmul 40 (fl (7 / 10)) = 28"
  "fmul 30 (fl (5 / 10)) = 15"
  "fmul 20 (fl (35 / 100)) = 7"
  "fmul 10 (fl (2 / 10)) = 2"
  "fmul 5 (fl (1 / 10)) = 1 / 2"
  "fl (15 / 10) = 3 / 2"
  by (simp_all add: fl_eval)

lemma calculate_expected_points_tiers:
  "calculate_expected_points row race =
     (let score = calculate_race_score row race
      in if 7 \<le> score then 28
         else if 5 \<le> score then 15
         else if 3 \<le> score then 7
         else if 3 / 2 \<le> score then 2
         else if 0 < score then 1 / 2
         else 0)"
  unfolding calculate_expected_points_def tier_values by (simp add: Let_def)


lemma fdiv_nonzero: "b \<noteq> 0 \<Longrightarrow> fdiv a b = Inr (fl (a / b))"
  by (simp add: fdiv_def)

lemma price_in_millions_sign:
  "0 < p \<Longrightarrow> 0 < price_in_millions p" "price_in_millions 0 = 0"
  by (simp_all add: price_in_millions_def fl_zero fl_pos)

text \<open>
  Claim C9.  The value score is the total of the projected points divided by the price
  in millions when that price is positive, and 0 when it is 0; the division is never
  reached with a zero divisor and the computation always returns a value.  For a row
  of \<^verbatim>\<open>load_enriched_data\<close> the price in millions is positive exactly when the
  price is.
\<close>

theorem c9_value_score:
  "(0 < price_m row \<longrightarrow>
      calculate_value_score row =
        Inr (fl (calculate_total_expected_points row / price_m row))) \<and>
   (price_m row = 0 \<longrightarrow> calculate_value_score row = Inr 0) \<and>
   calculate_value_score row \<noteq> Inl ZeroDivisionError \<and>
   (\<exists>v. calculate_value_score row = Inr v) \<and>
   (price_m row = price_in_millions (price row) \<longrightarrow>
      (0 < price row \<longrightarrow> 0 < price_m row) \<and> (price row = 0 \<longrightarrow> price_m row = 0))"
  by (auto simp: calculate_value_score_def fdiv_def Let_def price_in_millions_sign)

lemma fadd_half_int:
  assumes "0 \<le> j" "0 \<le> k" "j + k < 2 ^ 53"
  shows "fadd (of_int j / 2) (of_int k / 2) = of_int (j + k) / 2"
proof -
  have e: "rat_of_int j / 2 + of_int k / 2 = of_int (j + k) / 2"
    by (simp add: add_divide_distrib)
  have "fl (rat_of_int (j + k) / 2) = of_int (j + k) / 2"
    using assms by (intro fl_half_int) simp_all
  then show ?thesis unfolding fadd_def e .
qed

lemma foldl_fadd_half:
  assumes "\<forall>x\<in>set xs. \<exists>k. 0 \<le> k \<and> k \<le> 56 \<and> x = rat_of_int k / 2"
    and "0 \<le> j" and "j + 56 * int (length xs) < 2 ^ 53"
  shows "foldl fadd (of_int j / 2) xs = of_int j / 2 + sum_list xs"
  using assms
proof (induction xs arbitrary: j)
  case Nil
  then show ?case by simp
next
  case (Cons x xs)
  from Cons.prems(1) obtain k where k: "0 \<le> k" "k \<le> 56" "x = rat_of_int k / 2" by auto
  have step: "fadd (of_int j / 2) x = of_int (j + k) / 2"
    unfolding k(3) using Cons.prems(2,3) k(1,2) by (intro fadd_half_int) simp_all
  have "foldl fadd (of_int j / 2) (x # xs) = foldl fadd (of_int (j + k) / 2) xs"
    by (simp only: foldl_Cons step)
  also have "\<dots> = of_int (j + k) / 2 + sum_list xs"
    using Cons.prems k(1,2) by (intro Cons.IH) simp_all
  also have "\<dots> = of_int j / 2 + sum_list (x # xs)"
    by (simp add: k(3) add_divide_distrib)
  finally show ?case .
qed

lemma expected_points_half:
  "\<exists>k. 0 \<le> k \<and> k \<le> 56 \<and> calculate_expected_points row race = rat_of_int k / 2"
proof -
  have "calculate_expected_points row race \<in> {28, 15, 7, 2, 1 / 2, 0}"
    by (simp add: calculate_expected_points_tiers Let_def)
  then consider "calculate_expected_points row race = rat_of_int 56 / 2"
    | "calculate_expected_points row race = rat_of_int 30 / 2"
    | "calculate_expected_points row race = rat_of_int 14 / 2"
    | "calculate_expected_points row race = rat_of_int 4 / 2"
    | "calculate_expected_points row race = rat_of_int 1 / 2"
    | "calculate_expected_points row race = rat_of_int 0 / 2"
    by auto
  then show ?thesis
    by cases (rule exI, (rule conjI [rotated])+, assumption, simp_all)+
qed

lemma expected_points_bounds:
  "0 \<le> calculate_expected_points row race" "calculate_expected_points row race \<le> 28"
  by (simp_all add: calculate_expected_points_tiers Let_def)

lemma length_race_names: "length race_names = 17"
  by (simp add: race_names_def RACE_DISPLAY_NAMES_def)

lemma foldl_fadd_expected:
  "foldl fadd 0 (map (calculate_expected_points row) race_names) =
     sum_list (map (calculate_expected_points row) race_names)"
proof -
  have "foldl fadd (rat_of_int 0 / 2) (map (calculate_expected_points row) race_names) =
          rat_of_int 0 / 2 + sum_list (map (calculate_expected_points row) race_names)"
  proof (rule foldl_fadd_half)
    show "\<forall>x\<in>set (map (calculate_expected_points row) race_names).
            \<exists>k. 0 \<le> k \<and> k \<le> 56 \<and> x = rat_of_int k / 2"
    proof
      fix x
      assume "x \<in> set (map (calculate_expected_points row) race_names)"
      then obtain race where x: "x = calculate_expected_points row race" by auto
      show "\<exists>k. 0 \<le> k \<and> k \<le> 56 \<and> x = rat_of_int k / 2"
        unfolding x by (rule expected_points_half)
    qed
  qed (simp_all add: length_race_names)
  then show ?thesis by simp
qed

lemma total_expected_points_sum:
  "calculate_total_expected_points row =
     (\<Sum>race\<leftarrow>race_names. calculate_expected_points row race)"
proof -
  have "calculate_total_expected_points row =
          foldl fadd 0 (map (calculate_expected_points row) race_names)"
    by (simp add: calculate_total_expected_points_def foldl_map)
  then show ?thesis by (simp only: foldl_fadd_expected)
qed

lemma value_score_Inr: "\<exists>v. calculate_value_score row = Inr v"
  by (auto simp: calculate_value_score_def fdiv_def Let_def)

lemma enrich_row_scored: "enrich_row row = Inr (scored row)"
  using value_score_Inr [of row] by (auto simp: enrich_row_def scored_def Let_def)

lemma enrich_rows_scored: "enrich_rows rows = Inr (map scored rows)"
  by (induction rows) (simp_all add: enrich_row_scored)

lemma enrich_with_scores_scored: "enrich_with_scores df = Inr (Enriched (map scored df))"
  by (simp add: enrich_with_scores_def enrich_rows_scored)

lemma exp_cols_scored: "exp_cols (scored row) = expected_columns row"
  by (simp add: scored_def rider.extend_def scored_rider.fields_def rider.defs scored_rider.defs)

lemma exp_total_scored:
  "exp_total (scored row) = (\<Sum>race\<leftarrow>race_names. calculate_expected_points row race)"
proof -
  have "map snd (expected_columns row) = map (calculate_expected_points row) race_names"
    by (simp add: expected_columns_def comp_def)
  then have "exp_total (scored row) =
      foldl fadd 0 (map (calculate_expected_points row) race_names)"
    by (simp add: scored_def rider.extend_def scored_rider.fields_def rider.defs scored_rider.defs)
  then show ?thesis by (simp only: foldl_fadd_expected)
qed

text \<open>
  Claim C5.  Every per-race projection lies between 0 and 28, and the total of a rider,
  as \<^verbatim>\<open>calculate_total_expected_points\<close> computes it and as the column
  \<^verbatim>\<open>exp_total\<close> of \<^verbatim>\<open>enrich_with_scores\<close> holds it, is exactly the sum of
  the per-race projections over the catalog: no float addition of the sum rounds.
\<close>

theorem c5_points_bounded_total_is_sum:
  "0 \<le> calculate_expected_points row race \<and>
   calculate_expected_points row race \<le> 28 \<and>
   calculate_total_expected_points row =
     (\<Sum>race\<leftarrow>race_names. calculate_expected_points row race) \<and>
   enrich_with_scores df = Inr (Enriched (map scored df)) \<and>
   exp_total (scored row) = (\<Sum>race\<leftarrow>race_names. calculate_expected_points row race) \<and>
   map snd (exp_cols (scored row)) = map (calculate_expected_points row) race_names"
  by (simp add: expected_points_bounds total_expected_points_sum enrich_with_scores_scored
      exp_total_scored exp_cols_scored expected_columns_def comp_def)

lemma get_quality_score_range:
  "qualities_in_range row \<Longrightarrow> 0 \<le> get_quality_score row q \<and> get_quality_score row q \<le> 10"
  by (auto simp: qualities_in_range_def get_quality_score_def)

lemma catalog_weight:
  assumes "map_of RACE_QUALITY_MAP race = Some m"
  shows "0 \<le> weight m" "weight m \<le> fl (9 / 10)"
proof -
  from assms have "(race, m) \<in> set RACE_QUALITY_MAP" by (rule map_of_SomeD)
  then have "\<exists>x. weight m = fl x \<and> 0 \<le> x \<and> x \<le> 9 / 10"
    unfolding RACE_QUALITY_MAP_def by auto
  then obtain x where x: "weight m = fl x" "0 \<le> x" "x \<le> 9 / 10" by blast
  show "0 \<le> weight m" unfolding x(1) using x(2) by (rule fl_nonneg)
  show "weight m \<le> fl (9 / 10)" unfolding x(1) using x(2,3) by (rule fl_mono)
qed

lemma score_values:
  "fl (rat_of_int 10) = 10"
  "fl (10 * fl (7 / 10)) = 7"
  "fl (10 * fl (3 / 10)) = 3"
  "fl (10 * fl (9 / 10)) = 9"
  "fl (7 + 3) = 10"
  by (simp_all add: fl_eval)

lemma float_of_int_range:
  assumes "0 \<le> q" "q \<le> 10"
  shows "0 \<le> float_of_int q" "float_of_int q \<le> 10"
proof -
  show "0 \<le> float_of_int q" using assms(1) by (simp add: float_of_int_def fl_nonneg)
  have "fl (rat_of_int q) \<le> fl (rat_of_int 10)" using assms by (intro fl_mono) simp_all
  then show "float_of_int q \<le> 10" by (simp only: float_of_int_def score_values)
qed

lemma fmul_range:
  assumes "0 \<le> a" "a \<le> 10" "0 \<le> c"
  shows "0 \<le> fmul a c" "fmul a c \<le> fl (10 * c)"
proof -
  show "0 \<le> fmul a c" using assms by (simp add: fmul_def fl_nonneg)
  have "a * c \<le> 10 * c" using assms by (simp add: mult_right_mono)
  then show "fmul a c \<le> fl (10 * c)" unfolding fmul_def using assms by (intro fl_mono) simp_all
qed

lemma weighted_quality_range:
  assumes "0 \<le> p" "p \<le> 10" "0 \<le> s" "s \<le> 10"
  shows "0 \<le> weighted_quality p s" "weighted_quality p s \<le> 10"
proof -
  have c: "0 \<le> fl (7 / 10)" "0 \<le> fl (3 / 10)" by (simp_all add: fl_nonneg)
  note a = fmul_range [OF float_of_int_range [OF assms(1,2)] c(1)]
  note b = fmul_range [OF float_of_int_range [OF assms(3,4)] c(2)]
  from a(1) b(1) show "0 \<le> weighted_quality p s"
    by (simp add: weighted_quality_def fadd_def fl_nonneg)
  have "fmul (float_of_int p) (fl (7 / 10)) + fmul (float_of_int s) (fl (3 / 10)) \<le> 7 + 3"
    using a(2) b(2) by (simp only: score_values)
  then have "fl (fmul (float_of_int p) (fl (7 / 10)) + fmul (float_of_int s) (fl (3 / 10)))
      \<le> fl (7 + 3)"
    using a(1) b(1) by (intro fl_mono) simp_all
  then show "weighted_quality p s \<le> 10"
    by (simp only: weighted_quality_def fadd_def score_values)
qed

lemma race_score_formula:
  "calculate_race_score row race =
     (if \<not> row_get_race row race then 0
      else case map_of RACE_QUALITY_MAP race of
        None \<Rightarrow> 0
      | Some m \<Rightarrow> fmul (weighted_quality (get_quality_score row (primary m))
                          (secondary_quality row m)) (weight m))"
  by (simp add: calculate_race_score_def weighted_quality_def secondary_quality_def Let_def
      split: option.splits)

text \<open>
  Claim C4, as amended.  With every quality between 0 and 10, the raw score of a race
  lies between 0 and 9 (and is 0 for a code outside the catalog).
\<close>

theorem c4_race_score_at_most_9:
  assumes "qualities_in_range row"
  shows "0 \<le> calculate_race_score row race \<and> calculate_race_score row race \<le> 9"
proof (cases "row_get_race row race")
  case False
  then show ?thesis by (simp add: race_score_formula)
next
  case True
  show ?thesis
  proof (cases "map_of RACE_QUALITY_MAP race")
    case None
    then show ?thesis by (simp add: race_score_formula)
  next
    case (Some m)
    define q where "q = weighted_quality (get_quality_score row (primary m))
      (secondary_quality row m)"
    have s: "0 \<le> secondary_quality row m \<and> secondary_quality row m \<le> 10"
      using get_quality_score_range [OF assms]
      by (simp add: secondary_quality_def split: option.splits)
    have q: "0 \<le> q" "q \<le> 10"
      unfolding q_def
      using get_quality_score_range [OF assms, of "primary m"] s
      by (simp_all add: weighted_quality_range)
    note w0 = catalog_weight(1) [OF Some] and w9 = catalog_weight(2) [OF Some]
    have "q * weight m \<le> 10 * fl (9 / 10)"
      using q w0 w9 by (intro mult_mono) simp_all
    then have "fl (q * weight m) \<le> fl (10 * fl (9 / 10))"
      using q(1) w0 by (intro fl_mono) simp_all
    then have "fmul q (weight m) \<le> 9" by (simp only: fmul_def score_values)
    moreover have "0 \<le> fmul q (weight m)" using q(1) w0 by (simp add: fmul_def fl_nonneg)
    moreover have "calculate_race_score row race = fmul q (weight m)"
      using True Some by (simp add: race_score_formula q_def)
    ultimately show ?thesis by simp
  qed
qed

lemma peter_fields:
  "races peter = [''ronde-van-vlaanderen'']" "q_cobbles peter = 10" "q_hill peter = 10"
  "q_gc peter = 0" "q_climb peter = 0" "q_tt peter = 0" "q_sprint peter = 0"
  "q_punch peter = 0" "price peter = 6000000" "price_m peter = 6"
  by (simp_all add: peter_def example_rider_def price_in_millions_def fl_eval)

lemma peter_in_range: "qualities_in_range peter"
  by (simp add: qualities_in_range_def peter_fields)

lemma peter_race_score: "calculate_race_score peter ''ronde-van-vlaanderen'' = 9"
  by (simp add: calculate_race_score_def row_get_race_def peter_fields RACE_QUALITY_MAP_def
      get_quality_score_def fl_eval)

text \<open>
  Claim C4 as stated bounds the raw score by 7.  A rider with cobbles 10 and hill 10 who
  starts in the Ronde van Vlaanderen (weight 0.9) has the raw score 9.
\<close>

theorem c4_race_score_exceeds_7:
  "qualities_in_range peter \<and> ''ronde-van-vlaanderen'' \<in> set race_names \<and>
   calculate_race_score peter ''ronde-van-vlaanderen'' = 9 \<and>
   \<not> calculate_race_score peter ''ronde-van-vlaanderen'' \<le> 7"
  by (simp add: peter_in_range peter_race_score race_names_def RACE_DISPLAY_NAMES_def)

theorem c4_race_score_at_most_9_witness:
  "qualities_in_range peter \<and>
   0 \<le> calculate_race_score peter ''ronde-van-vlaanderen'' \<and>
   calculate_race_score peter ''ronde-van-vlaanderen'' \<le> 9"
  using c4_race_score_at_most_9 [OF peter_in_range, of "''ronde-van-vlaanderen''"]
  by (simp add: peter_in_range)


text \<open>
  The tiers are cut on the float the source computes.  With hill 3 and punch 3 in the
  Brabantse Pijl (weight 0.5) the products \<open>3 * 0.7\<close> and \<open>3 * 0.3\<close> round below 2.1
  and 0.9, the raw score is the float just below 1.5, and the projection is 0.5.
\<close>

lemma race_score_just_below_tier:
  "calculate_race_score free_agent ''brabantse-pijl'' = 6755399441055743 / 4503599627370496"
  "calculate_expected_points free_agent ''brabantse-pijl'' = 1 / 2"
  by (simp_all add: calculate_expected_points_tiers calculate_race_score_def row_get_race_def
      free_agent_def example_rider_def RACE_QUALITY_MAP_def get_quality_score_def fl_eval)

theorem c9_value_score_witness:
  "0 < price_m peter \<and> price_m peter = price_in_millions (price peter) \<and> 0 < price peter \<and>
   calculate_value_score peter = Inr (fl (calculate_total_expected_points peter / 6)) \<and>
   price_m free_agent = 0 \<and> price free_agent = 0 \<and>
   calculate_value_score free_agent = Inr 0"
proof -
  have h: "price_m free_agent = 0" "price free_agent = 0"
    "price_m peter = price_in_millions (price peter)"
    by (simp_all add: free_agent_def peter_def example_rider_def price_in_millions_def fl_zero)
  from c9_value_score [of peter] c9_value_score [of free_agent] h
  show ?thesis by (simp add: peter_fields)
qed

section \<open>The roster selector: proofs\<close>

lemma select_rows_Nil [simp]: "select_rows [] xs = []" "select_rows a [] = []"
  by (simp_all add: select_rows_def)

lemma select_rows_Cons [simp]:
  "select_rows (b # a) (x # xs) = (if b then x # select_rows a xs else select_rows a xs)"
  by (simp add: select_rows_def)

lemma select_rows_map: "select_rows a (map f xs) = map f (select_rows a xs)"
  by (induction a xs rule: list_induct2') simp_all

lemma length_select_rows:
  "length a = length xs \<Longrightarrow> length (select_rows a xs) = length (filter id a)"
  by (induction a xs rule: list_induct2) simp_all

lemma subseq_select_rows: "subseq (select_rows a xs) xs"
  by (induction a xs rule: list_induct2') (auto intro: list_emb_Cons)

lemma subseq_as_select_rows:
  "subseq ys xs \<Longrightarrow> \<exists>a. length a = length xs \<and> ys = select_rows a xs"
proof (induction ys xs rule: list_emb.induct)
  case (list_emb_Nil ys)
  have "[] = select_rows (replicate (length ys) False) ys"
    by (induction ys) simp_all
  then show ?case by (intro exI [of _ "replicate (length ys) False"]) simp
next
  case (list_emb_Cons xs ys y)
  then obtain a where "length a = length ys" "xs = select_rows a ys" by blast
  then show ?case by (intro exI [of _ "False # a"]) simp
next
  case (list_emb_Cons2 x y xs ys)
  then obtain a where "length a = length ys" "xs = select_rows a ys" by blast
  with list_emb_Cons2(1) show ?case by (intro exI [of _ "True # a"]) simp
qed

lemma set_select_rows:
  "length a = length xs \<Longrightarrow> set (select_rows a xs) = {xs ! i | i. i < length xs \<and> a ! i}"
proof (induction a xs rule: list_induct2)
  case Nil
  then show ?case by simp
next
  case (Cons b a x xs)
  have "{(x # xs) ! i | i. i < length (x # xs) \<and> (b # a) ! i} =
        (if b then {x} else {}) \<union> {xs ! i | i. i < length xs \<and> a ! i}"
    (is "?L = ?R")
  proof (intro set_eqI iffI)
    fix y assume "y \<in> ?L"
    then obtain i where i: "y = (x # xs) ! i" "i < length (x # xs)" "(b # a) ! i" by blast
    then show "y \<in> ?R" by (cases i) auto
  next
    fix y assume "y \<in> ?R"
    then consider "b" "y = x" | i where "y = xs ! i" "i < length xs" "a ! i"
      by (auto split: if_splits)
    then show "y \<in> ?L"
    proof cases
      case 1
      then have "y = (x # xs) ! 0 \<and> 0 < length (x # xs) \<and> (b # a) ! 0" by simp
      then show ?thesis by blast
    next
      case 2
      then have "y = (x # xs) ! Suc i \<and> Suc i < length (x # xs) \<and> (b # a) ! Suc i" by simp
      then show ?thesis by blast
    qed
  qed
  with Cons show ?case by auto
qed

text \<open>Reading the roster off the solver's values.\<close>

lemma var_value_var_values:
  "i < length a \<Longrightarrow> (var_value (var_values a) i = Some 1) = a ! i"
  by (simp add: var_value_def var_values_def)

lemma selected_rows:
  assumes "length a = length xs"
  shows "map (\<lambda>i. xs ! i) (filter (\<lambda>i. var_value (var_values a) i = Some 1) [0..<length xs])
           = select_rows a xs"
proof -
  have "filter (\<lambda>i. var_value (var_values a) i = Some 1) [0..<length xs] =
        filter (\<lambda>i. a ! i) [0..<length xs]"
    using assms by (intro filter_cong) (simp_all add: var_value_var_values)
  moreover have "map (\<lambda>i. xs ! i) (filter (\<lambda>i. a ! i) [0..<length xs]) = select_rows a xs"
    using assms
  proof (induction a xs rule: list_induct2)
    case Nil
    then show ?case by simp
  next
    case (Cons b a x xs)
    have "[0..<length (x # xs)] = 0 # map Suc [0..<length xs]"
      by (simp only: map_Suc_upt length_Cons upt_conv_Cons [OF zero_less_Suc])
    then show ?case using Cons by (simp add: filter_map comp_def)
  qed
  ultimately show ?thesis by simp
qed

lemma first_index_None: "first_index P xs = None \<longleftrightarrow> (\<forall>x\<in>set xs. \<not> P x)"
  by (induction xs) auto

lemma first_index_Some:
  "first_index P xs = Some i \<Longrightarrow> i < length xs \<and> P (xs ! i)"
proof (induction xs arbitrary: i)
  case Nil
  then show ?case by simp
next
  case (Cons x xs)
  then show ?case by (cases "P x") auto
qed

lemma first_index_distinct:
  assumes "distinct (map f xs)" "i < length xs"
  shows "first_index (\<lambda>x. f x = f (xs ! i)) xs = Some i"
proof -
  have "first_index (\<lambda>x. f x = f (xs ! i)) xs \<noteq> None"
    using assms(2) by (auto simp: first_index_None)
  then obtain j where j: "first_index (\<lambda>x. f x = f (xs ! i)) xs = Some j" by blast
  from first_index_Some [OF j] have "j < length xs" "f (xs ! j) = f (xs ! i)" by simp_all
  then have "map f xs ! j = map f xs ! i" using assms(2) by simp
  with assms \<open>j < length xs\<close> have "j = i"
    using nth_eq_iff_index_eq [of "map f xs" j i] by simp
  with j show ?thesis by simp
qed

lemma set_locked_indices:
  "set (locked_indices candidates rids) =
     {i. \<exists>rid\<in>set rids. first_index (\<lambda>r. market_rider_id r = rid) candidates = Some i}"
  by (induction rids) (auto split: option.splits)

text \<open>The candidate pool consists of rows of the table and keeps ids distinct.\<close>

lemma candidate_pool_invariant:
  assumes "distinct (map market_rider_id df)"
  shows "set (candidate_pool df locked_in) \<subseteq> set df \<and>
         distinct (map market_rider_id (candidate_pool df locked_in))"
proof -
  define step where "step = (\<lambda>candidates rid.
      if rid \<notin> set (map market_rider_id candidates)
      then candidates @ filter (\<lambda>r. market_rider_id r = rid) df
      else candidates)"
  have inv: "set (foldl step c rids) \<subseteq> set df \<and> distinct (map market_rider_id (foldl step c rids))"
    if "set c \<subseteq> set df" "distinct (map market_rider_id c)" for c rids
    using that
  proof (induction rids arbitrary: c)
    case Nil
    then show ?case by simp
  next
    case (Cons rid rids)
    have "set (step c rid) \<subseteq> set df" using Cons.prems(1) by (auto simp: step_def)
    moreover have "distinct (map market_rider_id (step c rid))"
      using Cons.prems(2) assms by (auto simp: step_def distinct_map_filter)
    ultimately show ?case using Cons.IH by simp
  qed
  have "set (filter (\<lambda>r. 0 < num_races r) df) \<subseteq> set df" by auto
  moreover have "distinct (map market_rider_id (filter (\<lambda>r. 0 < num_races r) df))"
    using assms by (rule distinct_map_filter)
  ultimately show ?thesis
    unfolding candidate_pool_def step_def [symmetric] by (rule inv)
qed

lemma ensure_scores_rows: "ensure_scores df = Inr (scored_rows df)"
  by (cases df) (simp_all add: ensure_scores_def scored_rows_def enrich_rows_scored)

lemma id_in_selected:
  assumes "length a = length pool"
  shows "rid \<in> set (map market_rider_id (select_rows a pool)) \<longleftrightarrow>
         (\<exists>i<length pool. a ! i \<and> market_rider_id (pool ! i) = rid)"
  using set_select_rows [OF assms] by auto

lemma ones_iff:
  assumes d: "distinct (map market_rider_id pool)" and l: "length a = length pool"
  shows "list_all (\<lambda>i. i < length a \<and> a ! i) (locked_indices pool rids) \<longleftrightarrow>
         (\<forall>rid\<in>set rids. rid \<in> set (map market_rider_id pool) \<longrightarrow>
            rid \<in> set (map market_rider_id (select_rows a pool)))"
    (is "?L \<longleftrightarrow> ?R")
proof
  assume L: ?L
  show ?R
  proof (intro ballI impI)
    fix rid assume rid: "rid \<in> set rids" "rid \<in> set (map market_rider_id pool)"
    then have "first_index (\<lambda>r. market_rider_id r = rid) pool \<noteq> None"
      by (auto simp: first_index_None)
    then obtain i where i: "first_index (\<lambda>r. market_rider_id r = rid) pool = Some i" by blast
    with rid(1) have "i \<in> set (locked_indices pool rids)"
      by (auto simp: set_locked_indices)
    with L have "a ! i" by (simp add: list_all_iff)
    with first_index_Some [OF i] show "rid \<in> set (map market_rider_id (select_rows a pool))"
      unfolding id_in_selected [OF l] by blast
  qed
next
  assume R: ?R
  show ?L
    unfolding list_all_iff
  proof
    fix i assume "i \<in> set (locked_indices pool rids)"
    then obtain rid where rid: "rid \<in> set rids"
      and i: "first_index (\<lambda>r. market_rider_id r = rid) pool = Some i"
      by (auto simp: set_locked_indices)
    from first_index_Some [OF i] have il: "i < length pool" "market_rider_id (pool ! i) = rid"
      by simp_all
    then have "rid \<in> set (map market_rider_id pool)" by auto
    with R rid have "rid \<in> set (map market_rider_id (select_rows a pool))" by blast
    then obtain j where j: "j < length pool" "a ! j" "market_rider_id (pool ! j) = rid"
      unfolding id_in_selected [OF l] by blast
    from first_index_distinct [OF d j(1)] i j(3) have "j = i" by simp
    with j il l show "i < length a \<and> a ! i" by simp
  qed
qed

lemma zeros_iff:
  assumes d: "distinct (map market_rider_id pool)" and l: "length a = length pool"
  shows "list_all (\<lambda>i. i < length a \<and> \<not> a ! i) (locked_indices pool rids) \<longleftrightarrow>
         set (map market_rider_id (select_rows a pool)) \<inter> set rids = {}"
    (is "?L \<longleftrightarrow> ?R")
proof
  assume L: ?L
  show ?R
  proof (rule ccontr)
    assume "\<not> ?R"
    then obtain rid where rid: "rid \<in> set rids"
      "rid \<in> set (map market_rider_id (select_rows a pool))" by blast
    then obtain j where j: "j < length pool" "a ! j" "market_rider_id (pool ! j) = rid"
      unfolding id_in_selected [OF l] by blast
    from first_index_distinct [OF d j(1)] j(3)
    have "first_index (\<lambda>r. market_rider_id r = rid) pool = Some j" by simp
    with rid(1) have "j \<in> set (locked_indices pool rids)" by (auto simp: set_locked_indices)
    with L have "\<not> a ! j" by (simp add: list_all_iff)
    with j(2) show False by simp
  qed
next
  assume R: ?R
  show ?L
    unfolding list_all_iff
  proof
    fix i assume "i \<in> set (locked_indices pool rids)"
    then obtain rid where rid: "rid \<in> set rids"
      and i: "first_index (\<lambda>r. market_rider_id r = rid) pool = Some i"
      by (auto simp: set_locked_indices)
    from first_index_Some [OF i] have il: "i < length pool" "market_rider_id (pool ! i) = rid"
      by simp_all
    have "\<not> a ! i"
    proof
      assume "a ! i"
      with il have "rid \<in> set (map market_rider_id (select_rows a pool))"
        unfolding id_in_selected [OF l] by blast
      with R rid show False by blast
    qed
    with il l show "i < length a \<and> \<not> a ! i" by simp
  qed
qed

text \<open>
  On a pool with distinct ids, the program that \<open>build_problem\<close> states has exactly
  the rosters of the request as its feasible assignments, up to the forced-include ids
  that are not in the pool.
\<close>

lemma feasible_iff:
  assumes d: "distinct (map market_rider_id pool)" and l: "length a = length pool"
  shows "lp_feasible (build_problem pool budget team_size locked_in locked_out) a \<longleftrightarrow>
           int (length (select_rows a pool)) = team_size \<and>
           sum_list (map price (select_rows a pool)) \<le> budget \<and>
           (\<forall>rid\<in>set locked_in. rid \<in> set (map market_rider_id pool) \<longrightarrow>
              rid \<in> set (map market_rider_id (select_rows a pool))) \<and>
           set (map market_rider_id (select_rows a pool)) \<inter> set locked_out = {}"
proof -
  let ?p = "build_problem pool budget team_size locked_in locked_out"
  have 1: "length a = length (lp_objective ?p)"
    using l by (simp add: build_problem_def)
  have 2: "length (filter id a) = length (select_rows a pool)"
    using l by (simp add: length_select_rows)
  have 3: "select_rows a (lp_prices ?p) = map price (select_rows a pool)"
    by (simp add: build_problem_def select_rows_map)
  have 4: "lp_ones ?p = locked_indices pool locked_in"
    "lp_zeros ?p = locked_indices pool locked_out"
    "lp_team_size ?p = team_size" "lp_budget ?p = budget"
    by (simp_all add: build_problem_def)
  show ?thesis
    unfolding lp_feasible_def 2 3 4 ones_iff [OF d l] zeros_iff [OF d l]
    using 1 by blast
qed

lemma feasible_length:
  "lp_feasible (build_problem pool budget team_size locked_in locked_out) a \<Longrightarrow>
     length a = length pool"
  by (simp add: lp_feasible_def build_problem_def)

lemma value_build_problem:
  "lp_value (build_problem pool budget team_size locked_in locked_out) a =
     sum_list (map exp_total (select_rows a pool))"
  by (simp add: lp_value_def build_problem_def select_rows_map)

lemma valid_roster_feasible:
  assumes d: "distinct (map market_rider_id pool)"
    and v: "valid_roster pool budget team_size locked_in locked_out roster"
  shows "\<exists>a. roster = select_rows a pool \<and>
             lp_feasible (build_problem pool budget team_size locked_in locked_out) a"
proof -
  from v have "subseq roster pool" by (simp add: valid_roster_def)
  then obtain a where a: "length a = length pool" "roster = select_rows a pool"
    using subseq_as_select_rows by blast
  from v have "lp_feasible (build_problem pool budget team_size locked_in locked_out) a"
    unfolding feasible_iff [OF d a(1)] valid_roster_def a(2) by auto
  with a(2) show ?thesis by blast
qed

lemma feasible_valid_roster:
  assumes d: "distinct (map market_rider_id pool)"
    and f: "lp_feasible (build_problem pool budget team_size locked_in locked_out) a"
    and i: "set locked_in \<subseteq> set (map market_rider_id pool)"
  shows "valid_roster pool budget team_size locked_in locked_out (select_rows a pool)"
proof -
  note l = feasible_length [OF f]
  from f i show ?thesis
    unfolding feasible_iff [OF d l] valid_roster_def
    by (auto simp: subseq_select_rows)
qed

lemma optimize_team_unfold:
  "optimize_team solve df budget team_size locked_in locked_out =
     Inr (Enriched (sort_key (\<lambda>r. - exp_total r)
       (map (\<lambda>i. candidate_pool (scored_rows df) locked_in ! i)
          (filter (\<lambda>i. var_value
               (solve (build_problem (candidate_pool (scored_rows df) locked_in)
                  budget team_size locked_in locked_out)) i = Some 1)
             [0..<length (candidate_pool (scored_rows df) locked_in)]))))"
  unfolding optimize_team_def ensure_scores_rows Let_def by simp

lemma mset_select_rows_subset: "mset (select_rows a xs) \<subseteq># mset xs"
proof (induction a xs rule: list_induct2')
  case (4 b a x xs)
  then show ?case
    by (cases b) (auto simp: subseteq_mset_def le_SucI)
qed simp_all

lemma sum_list_sort_key:
  fixes f :: "'a \<Rightarrow> 'b::comm_monoid_add"
  shows "sum_list (map f (sort_key k xs)) = sum_list (map f xs)"
proof -
  have "sum_list (map f (sort_key k xs)) = sum_mset (mset (map f (sort_key k xs)))"
    by (simp only: sum_mset_sum_list)
  also have "\<dots> = sum_mset (mset (map f xs))" by simp
  also have "\<dots> = sum_list (map f xs)" by (simp only: sum_mset_sum_list)
  finally show ?thesis .
qed

lemma set_select_rows_subset: "set (select_rows a xs) \<subseteq> set xs"
  by (induction a xs rule: list_induct2') auto

text \<open>
  Claim C1.  Let the solver be exact, the ids of the table distinct, and let the request
  admit some roster of candidates.  Then \<^verbatim>\<open>optimize_team\<close> returns a roster of
  exactly \<open>team_size\<close> candidates whose prices sum to at most the budget, which holds
  every forced-include id and no forced-exclude id, and no roster the request admits
  has a greater sum of \<^verbatim>\<open>exp_total\<close>.
\<close>

theorem c1_optimize_team_optimal:
  assumes exact: "exact_solver solve"
    and ids: "distinct (map market_rider_id (scored_rows df))"
    and feasible:
      "valid_roster (candidate_pool (scored_rows df) locked_in) budget team_size
         locked_in locked_out some_roster"
  shows "\<exists>team.
      optimize_team solve df budget team_size locked_in locked_out = Inr (Enriched team) \<and>
      int (length team) = team_size \<and>
      sum_list (map price team) \<le> budget \<and>
      set locked_in \<subseteq> set (map market_rider_id team) \<and>
      set (map market_rider_id team) \<inter> set locked_out = {} \<and>
      mset team \<subseteq># mset (candidate_pool (scored_rows df) locked_in) \<and>
      best_roster (candidate_pool (scored_rows df) locked_in) budget team_size
        locked_in locked_out team"
proof -
  define pool where "pool = candidate_pool (scored_rows df) locked_in"
  define p where "p = build_problem pool budget team_size locked_in locked_out"
  have d: "distinct (map market_rider_id pool)"
    unfolding pool_def using candidate_pool_invariant [OF ids] by blast
  from valid_roster_feasible [OF d feasible [folded pool_def]]
  have "\<exists>a. lp_feasible p a" unfolding p_def by blast
  with exact obtain a where a: "lp_feasible p a" "solve p = var_values a"
    and opt: "\<And>b. lp_feasible p b \<Longrightarrow> lp_value p b \<le> lp_value p a"
    unfolding exact_solver_def by blast
  note l = feasible_length [OF a(1) [unfolded p_def]]
  define roster where "roster = select_rows a pool"
  define team where "team = sort_key (\<lambda>r. - exp_total r) roster"
  have res: "optimize_team solve df budget team_size locked_in locked_out = Inr (Enriched team)"
    unfolding optimize_team_unfold pool_def [symmetric] p_def [symmetric] a(2)
      selected_rows [OF l] team_def roster_def ..
  from valid_roster_feasible [OF d feasible [folded pool_def]]
  obtain a0 where a0: "some_roster = select_rows a0 pool" by blast
  have "set some_roster \<subseteq> set pool" unfolding a0 by (rule set_select_rows_subset)
  then have "set (map market_rider_id some_roster) \<subseteq> set (map market_rider_id pool)"
    by auto
  moreover have "set locked_in \<subseteq> set (map market_rider_id some_roster)"
    using feasible by (simp add: valid_roster_def)
  ultimately have li: "set locked_in \<subseteq> set (map market_rider_id pool)"
    by (rule order_trans [rotated])
  have v: "valid_roster pool budget team_size locked_in locked_out roster"
    unfolding roster_def using d a(1) [unfolded p_def] li by (rule feasible_valid_roster)
  have m: "mset team = mset roster" by (simp add: team_def)
  have ids_eq: "set (map market_rider_id team) = set (map market_rider_id roster)"
    by (simp add: team_def)
  have f1: "int (length team) = team_size"
    using v by (simp add: valid_roster_def team_def)
  have f2: "sum_list (map price team) \<le> budget"
    using v by (simp add: valid_roster_def team_def sum_list_sort_key)
  have f3: "set locked_in \<subseteq> set (map market_rider_id team)"
    unfolding ids_eq using v by (simp add: valid_roster_def)
  have f4: "set (map market_rider_id team) \<inter> set locked_out = {}"
    unfolding ids_eq using v by (simp add: valid_roster_def)
  have f5: "mset team \<subseteq># mset pool"
    unfolding m roster_def by (rule mset_select_rows_subset)
  have f6: "best_roster pool budget team_size locked_in locked_out team"
    unfolding best_roster_def
  proof (intro allI impI)
    fix r assume "valid_roster pool budget team_size locked_in locked_out r"
    from valid_roster_feasible [OF d this] obtain b
      where b: "r = select_rows b pool" "lp_feasible p b" unfolding p_def by blast
    from opt [OF b(2)] show "sum_list (map exp_total r) \<le> sum_list (map exp_total team)"
      unfolding p_def value_build_problem b(1) team_def roster_def sum_list_sort_key .
  qed
  from res f1 f2 f3 f4 f5 f6 show ?thesis
    unfolding pool_def by (intro exI [of _ team] conjI)
qed

text \<open>The reference solver is exact.\<close>

lemma foldl_better:
  "foldl (better p) c cs \<in> set (c # cs) \<and>
   (\<forall>b\<in>set (c # cs). lp_value p b \<le> lp_value p (foldl (better p) c cs))"
proof (induction cs arbitrary: c)
  case Nil
  then show ?case by simp
next
  case (Cons x cs)
  from Cons [of "better p c x"] show ?case
    by (auto simp: better_def split: if_splits)
qed

lemma exhaustive_solver_exact: "exact_solver exhaustive_solver"
  unfolding exact_solver_def
proof (intro allI impI)
  fix p assume "\<exists>a. lp_feasible p a"
  then obtain a0 where a0: "lp_feasible p a0" by blast
  define n where "n = length (lp_objective p)"
  define fs where "fs = filter (lp_feasible p) (List.n_lists n [False, True])"
  have all: "b \<in> set fs \<longleftrightarrow> lp_feasible p b" for b
    by (auto simp: fs_def set_n_lists n_def lp_feasible_def)
  with a0 have "fs \<noteq> []" by auto
  then obtain c cs where fs: "fs = c # cs" by (cases fs) auto
  define r where "r = foldl (better p) c cs"
  have sol: "exhaustive_solver p = var_values r"
    by (simp add: exhaustive_solver_def n_def [symmetric] fs_def [symmetric] fs r_def)
  from foldl_better [of p c cs] have "r \<in> set fs" "\<forall>b\<in>set fs. lp_value p b \<le> lp_value p r"
    by (simp_all add: r_def fs)
  then have "lp_feasible p r \<and> (\<forall>b. lp_feasible p b \<longrightarrow> lp_value p b \<le> lp_value p r)"
    by (simp add: all)
  with sol show "\<exists>a. lp_feasible p a \<and> exhaustive_solver p = var_values a \<and>
      (\<forall>b. lp_feasible p b \<longrightarrow> lp_value p b \<le> lp_value p a)" by blast
qed

lemma example_scored_fields:
  "market_rider_id (example_scored rid p cols points) = rid"
  "price (example_scored rid p cols points) = p"
  "num_races (example_scored rid p cols points) = int (length cols)"
  "races (example_scored rid p cols points) = map fst cols"
  "exp_cols (example_scored rid p cols points) = cols"
  "exp_total (example_scored rid p cols points) = points"
  "name (example_scored rid p cols points) = ''rider''"
  by (simp_all add: example_scored_def example_rider_def rider.defs scored_rider.defs)

lemma three_riders_pool: "candidate_pool three_riders [] = three_riders"
  by (simp add: candidate_pool_def three_riders_def example_scored_fields)

lemmas lp_eval = lp_feasible_def lp_value_def better_def var_values_def var_value_def
  build_problem_def exhaustive_solver_def

lemma three_riders_team:
  "optimize_team exhaustive_solver (Enriched three_riders) 45000000 2 [] [] =
     Inr (Enriched [three_riders ! 0, three_riders ! 1])"
  unfolding optimize_team_unfold
  by (simp add: scored_rows_def three_riders_pool)
     (simp add: three_riders_def lp_eval example_scored_fields upt_rec)

text \<open>
  The example of the specification: budget 45 million, two riders.  The riders 1 and 2
  cost 45 million and total 80 points.
\<close>

theorem c1_optimize_team_optimal_witness:
  "exact_solver exhaustive_solver \<and>
   distinct (map market_rider_id (scored_rows (Enriched three_riders))) \<and>
   valid_roster (candidate_pool (scored_rows (Enriched three_riders)) []) 45000000 2 [] []
     [three_riders ! 0, three_riders ! 1] \<and>
   optimize_team exhaustive_solver (Enriched three_riders) 45000000 2 [] [] =
     Inr (Enriched [three_riders ! 0, three_riders ! 1]) \<and>
   sum_list (map price [three_riders ! 0, three_riders ! 1]) = 45000000 \<and>
   sum_list (map exp_total [three_riders ! 0, three_riders ! 1]) = 80 \<and>
   best_roster (candidate_pool (scored_rows (Enriched three_riders)) []) 45000000 2 [] []
     [three_riders ! 0, three_riders ! 1]"
proof -
  let ?df = "Enriched three_riders"
  let ?team = "[three_riders ! 0, three_riders ! 1]"
  have h1: "distinct (map market_rider_id (scored_rows ?df))"
    by (simp add: scored_rows_def three_riders_def example_scored_fields)
  have h2: "valid_roster (candidate_pool (scored_rows ?df) []) 45000000 2 [] [] ?team"
    by (simp add: scored_rows_def three_riders_pool valid_roster_def)
      (simp add: three_riders_def example_scored_fields)
  from c1_optimize_team_optimal [OF exhaustive_solver_exact h1 h2] obtain team
    where t: "optimize_team exhaustive_solver ?df 45000000 2 [] [] = Inr (Enriched team)"
      and b: "best_roster (candidate_pool (scored_rows ?df) []) 45000000 2 [] [] team"
    by blast
  from t have "team = ?team" by (simp only: three_riders_team sum.inject frame.inject)
  with b have "best_roster (candidate_pool (scored_rows ?df) []) 45000000 2 [] [] ?team"
    by simp
  moreover have "sum_list (map price ?team) = 45000000"
    "sum_list (map exp_total ?team) = 80"
    by (simp_all add: three_riders_def example_scored_fields)
  ultimately show ?thesis
    using exhaustive_solver_exact h1 h2 three_riders_team by (intro conjI)
qed

text \<open>Ids that are not in the table.\<close>

lemma candidate_pool_subset: "set (candidate_pool df locked_in) \<subseteq> set df"
proof -
  have "set (foldl (\<lambda>candidates rid.
              if rid \<notin> set (map market_rider_id candidates)
              then candidates @ filter (\<lambda>r. market_rider_id r = rid) df
              else candidates) c rids) \<subseteq> set df"
    if "set c \<subseteq> set df" for c rids
    using that by (induction rids arbitrary: c) auto
  then show ?thesis unfolding candidate_pool_def by simp
qed

lemma candidate_pool_removeAll:
  assumes "rid \<notin> set (map market_rider_id df)"
  shows "candidate_pool df (removeAll rid locked_in) = candidate_pool df locked_in"
proof -
  from assms have e: "filter (\<lambda>r. market_rider_id r = rid) df = []"
    by (auto simp: filter_empty_conv)
  have "foldl (\<lambda>candidates rid.
              if rid \<notin> set (map market_rider_id candidates)
              then candidates @ filter (\<lambda>r. market_rider_id r = rid) df
              else candidates) c (removeAll rid rids) =
        foldl (\<lambda>candidates rid.
              if rid \<notin> set (map market_rider_id candidates)
              then candidates @ filter (\<lambda>r. market_rider_id r = rid) df
              else candidates) c rids" for c rids
    by (induction rids arbitrary: c) (auto simp: e)
  then show ?thesis unfolding candidate_pool_def by simp
qed

lemma locked_indices_removeAll:
  assumes "rid \<notin> set (map market_rider_id candidates)"
  shows "locked_indices candidates (removeAll rid rids) = locked_indices candidates rids"
proof -
  from assms have "first_index (\<lambda>r. market_rider_id r = rid) candidates = None"
    by (auto simp: first_index_None)
  then show ?thesis by (induction rids) (auto split: option.splits)
qed

lemma build_problem_removeAll:
  assumes "rid \<notin> set (map market_rider_id candidates)"
  shows "build_problem candidates budget team_size (removeAll rid locked_in)
           (removeAll rid locked_out) =
         build_problem candidates budget team_size locked_in locked_out"
  by (simp add: build_problem_def locked_indices_removeAll [OF assms])

text \<open>
  Claim C10.  An id that no row of the table has changes nothing when it stands in the
  forced-include or the forced-exclude list: the candidate pool and the program handed
  to the solver are the same as without it, so is the result, and the call returns.
\<close>

theorem c10_unknown_lock_ids_ignored:
  assumes "rid \<notin> set (map market_rider_id (scored_rows df))"
  shows "candidate_pool (scored_rows df) locked_in =
           candidate_pool (scored_rows df) (removeAll rid locked_in) \<and>
         build_problem (candidate_pool (scored_rows df) locked_in) budget team_size
             locked_in locked_out =
           build_problem (candidate_pool (scored_rows df) (removeAll rid locked_in)) budget
             team_size (removeAll rid locked_in) (removeAll rid locked_out) \<and>
         optimize_team solve df budget team_size locked_in locked_out =
           optimize_team solve df budget team_size (removeAll rid locked_in)
             (removeAll rid locked_out) \<and>
         (\<exists>team. optimize_team solve df budget team_size locked_in locked_out =
            Inr (Enriched team))"
proof -
  have p: "candidate_pool (scored_rows df) (removeAll rid locked_in) =
      candidate_pool (scored_rows df) locked_in"
    using assms by (rule candidate_pool_removeAll)
  have "rid \<notin> set (map market_rider_id (candidate_pool (scored_rows df) locked_in))"
    using assms candidate_pool_subset [of "scored_rows df" locked_in] by auto
  then have b: "build_problem (candidate_pool (scored_rows df) locked_in) budget team_size
      (removeAll rid locked_in) (removeAll rid locked_out) =
    build_problem (candidate_pool (scored_rows df) locked_in) budget team_size
      locked_in locked_out"
    by (rule build_problem_removeAll)
  show ?thesis
    unfolding optimize_team_unfold p b by simp
qed

theorem c10_unknown_lock_ids_ignored_witness:
  "99 \<notin> set (map market_rider_id (scored_rows (Enriched three_riders))) \<and>
   optimize_team exhaustive_solver (Enriched three_riders) 45000000 2 [99] [99] =
     optimize_team exhaustive_solver (Enriched three_riders) 45000000 2 [] [] \<and>
   optimize_team exhaustive_solver (Enriched three_riders) 45000000 2 [99] [99] =
     Inr (Enriched [three_riders ! 0, three_riders ! 1])"
proof -
  have h: "99 \<notin> set (map market_rider_id (scored_rows (Enriched three_riders)))"
    by (simp add: scored_rows_def three_riders_def example_scored_fields)
  from c10_unknown_lock_ids_ignored [OF h, of "[99]" 45000000 2 "[99]" exhaustive_solver]
  have "optimize_team exhaustive_solver (Enriched three_riders) 45000000 2 [99] [99] =
     optimize_team exhaustive_solver (Enriched three_riders) 45000000 2 [] []"
    by simp
  with h show ?thesis by (simp add: three_riders_team)
qed

















section \<open>The captaincy strategist: proofs\<close>

lemma takeWhile_enumerate:
  "takeWhile (\<lambda>(i, r). \<not> m \<le> i) (enumerate n xs) = take (m - n) (enumerate n xs)"
proof (induction xs arbitrary: n)
  case Nil
  then show ?case by simp
next
  case (Cons x xs)
  show ?case
  proof (cases "m \<le> n")
    case True
    then show ?thesis by simp
  next
    case False
    then have "m - n = Suc (m - Suc n)" by simp
    with False Cons [of "Suc n"] show ?thesis by simp
  qed
qed

lemma filter_enumerate:
  "filter (\<lambda>(i, r). \<not> i < m) (enumerate n xs) = drop (m - n) (enumerate n xs)"
proof (induction xs arbitrary: n)
  case Nil
  then show ?case by simp
next
  case (Cons x xs)
  show ?case
  proof (cases "n < m")
    case True
    then have "m - n = Suc (m - Suc n)" by simp
    with True Cons [of "Suc n"] show ?thesis by simp
  next
    case False
    with Cons [of "Suc n"] show ?thesis by simp
  qed
qed

lemma race_strategy_entries:
  "race_strategy team race =
     map (entry_at race)
       (enumerate 0 (sort_key (\<lambda>r. - exp_points r race) (filter (\<lambda>r. row_get_race r race) team)))"
proof -
  define E where "E = enumerate 0 (sort_key (\<lambda>r. - exp_points r race)
      (filter (\<lambda>r. row_get_race r race) team))"
  have low: "i < 3" if "(i, r) \<in> set (take 3 E)" for i r
  proof -
    from that obtain j where j: "j < length (take 3 E)" "take 3 E ! j = (i, r)"
      by (auto simp: in_set_conv_nth)
    then have "E ! j = (i, r)" "j < length E" "j < 3" by simp_all
    then show ?thesis by (simp add: E_def nth_enumerate_eq)
  qed
  have high: "\<not> i < 3" if "(i, r) \<in> set (drop 3 E)" for i r
  proof -
    from that obtain j where j: "j < length (drop 3 E)" "drop 3 E ! j = (i, r)"
      by (auto simp: in_set_conv_nth)
    then have "E ! (3 + j) = (i, r)" "3 + j < length E" by simp_all
    then show ?thesis by (simp add: E_def nth_enumerate_eq)
  qed
  have "race_strategy team race =
      map (\<lambda>(i, rider).
             \<lparr>rank = i + 1, rider_name = name rider, rider_id = market_rider_id rider,
              multiplier = kopman_multiplier (i + 1),
              base_points = exp_points rider race,
              boosted_points = fmul (exp_points rider race) (kopman_multiplier (i + 1))\<rparr>)
          (take 3 E) @
      map (\<lambda>(i, rider).
             \<lparr>rank = i + 1, rider_name = name rider, rider_id = market_rider_id rider,
              multiplier = 1,
              base_points = exp_points rider race,
              boosted_points = exp_points rider race\<rparr>)
          (drop 3 E)"
    unfolding race_strategy_def Let_def E_def [symmetric]
      takeWhile_enumerate [of 3 0, simplified] filter_enumerate [of 3 0, simplified]
    by (auto simp: E_def)
  also have "\<dots> = map (entry_at race) (take 3 E) @ map (entry_at race) (drop 3 E)"
    by (intro arg_cong2 [where f = append] map_cong refl)
      (auto simp: entry_at_def dest: low high)
  also have "\<dots> = map (entry_at race) E"
    by (simp only: map_append [symmetric] append_take_drop_id)
  finally show ?thesis unfolding E_def .
qed

lemma kopman_multiplier_rank:
  "k = 1 \<or> k = 2 \<or> k = 3 \<Longrightarrow> kopman_multiplier k = rank_multiplier k"
  by (auto simp: kopman_multiplier_def KOPMAN_MULTIPLIERS_def rank_multiplier_def)

lemma entry_at_multiplier: "multiplier (entry_at race (i, r)) = rank_multiplier (i + 1)"
proof (cases "i < 3")
  case True
  then have "i + 1 = 1 \<or> i + 1 = 2 \<or> i + 1 = 3" by auto
  from kopman_multiplier_rank [OF this] True show ?thesis by (simp add: entry_at_def)
next
  case False
  then show ?thesis by (simp add: entry_at_def rank_multiplier_def)
qed

lemma tier_times_multiplier:
  assumes "b \<in> {0, 1 / 2, 2, 7, 15, 28}" "m \<in> {3, 5 / 2, 2}"
  shows "fmul b m = b * m"
  using assms unfolding insert_iff empty_iff
  by (elim disjE FalseE; hypsubst; simp add: fl_eval)

lemma rank_multiplier_top: "i < 3 \<Longrightarrow> rank_multiplier (i + 1) \<in> {3, 5 / 2, 2}"
  by (auto simp: rank_multiplier_def)

lemma entry_at_boosted:
  "boosted_points (entry_at race (i, r)) =
     (if i < 3 then fmul (exp_points r race) (rank_multiplier (i + 1))
      else exp_points r race * rank_multiplier (i + 1))"
proof (cases "i < 3")
  case True
  then have "i + 1 = 1 \<or> i + 1 = 2 \<or> i + 1 = 3" by auto
  from kopman_multiplier_rank [OF this] True show ?thesis by (simp add: entry_at_def)
next
  case False
  then show ?thesis by (simp add: entry_at_def rank_multiplier_def)
qed

lemma map_of_keyed:
  "map_of (map (\<lambda>k. (k, f k)) ks) k = (if k \<in> set ks then Some (f k) else None)"
  by (induction ks) auto

lemma strategy_lookup:
  "race \<in> set race_names \<Longrightarrow>
     map_of (calculate_kopman_strategy (Enriched team)) race = Some (race_strategy team race)"
  by (simp add: calculate_kopman_strategy_def map_of_keyed)

lemma sorted_descending:
  "sorted_wrt (\<lambda>a b. f b \<le> f a) (sort_key (\<lambda>r. - f r) xs)"
  for f :: "'a \<Rightarrow> rat"
proof -
  have "sorted (map (\<lambda>r. - f r) (sort_key (\<lambda>r. - f r) xs))" by (rule sorted_sort_key)
  then show ?thesis by (simp add: sorted_map sorted_wrt_iff_nth_less)
qed

text \<open>
  Claim C7.  For a race of the catalog, the entries of a roster are its starters ranked
  by descending projection for that race; the entry at rank \<open>k\<close> carries that rank and
  the multiplier 3, 2.5, 2 for \<open>k = 1, 2, 3\<close> and 1 from rank 4 on, whatever ties the
  ranking has.  The boosted points are the float product of base and multiplier for the
  first three ranks and the base itself after them; for projections of the scoring
  model the product is exact, so that boosted = base * multiplier at every rank.
\<close>

theorem c7_ranks_and_multipliers:
  assumes "race \<in> set race_names"
  shows "\<exists>ranked entries.
     ranking_of team race ranked \<and>
     map_of (calculate_kopman_strategy (Enriched team)) race = Some entries \<and>
     length entries = length ranked \<and>
     (\<forall>i<length ranked.
        rank (entries ! i) = i + 1 \<and>
        rider_id (entries ! i) = market_rider_id (ranked ! i) \<and>
        rider_name (entries ! i) = name (ranked ! i) \<and>
        base_points (entries ! i) = exp_points (ranked ! i) race \<and>
        multiplier (entries ! i) = rank_multiplier (i + 1) \<and>
        boosted_points (entries ! i) =
          (if i < 3 then fmul (base_points (entries ! i)) (multiplier (entries ! i))
           else base_points (entries ! i) * multiplier (entries ! i)) \<and>
        (projected_by_model (ranked ! i) \<longrightarrow>
           boosted_points (entries ! i) = base_points (entries ! i) * multiplier (entries ! i)))"
proof -
  define ranked where "ranked = sort_key (\<lambda>r. - exp_points r race)
      (filter (\<lambda>r. row_get_race r race) team)"
  define entries where "entries = race_strategy team race"
  have e: "entries = map (entry_at race) (enumerate 0 ranked)"
    unfolding entries_def ranked_def by (rule race_strategy_entries)
  have r: "ranking_of team race ranked"
    unfolding ranking_of_def ranked_def by (simp add: sorted_descending)
  have l: "length entries = length ranked" by (simp add: e)
  have n: "entries ! i = entry_at race (i, ranked ! i)" if "i < length ranked" for i
    using that by (simp add: e nth_enumerate_eq)
  have p: "rank (entries ! i) = i + 1 \<and>
        rider_id (entries ! i) = market_rider_id (ranked ! i) \<and>
        rider_name (entries ! i) = name (ranked ! i) \<and>
        base_points (entries ! i) = exp_points (ranked ! i) race \<and>
        multiplier (entries ! i) = rank_multiplier (i + 1) \<and>
        boosted_points (entries ! i) =
          (if i < 3 then fmul (base_points (entries ! i)) (multiplier (entries ! i))
           else base_points (entries ! i) * multiplier (entries ! i)) \<and>
        (projected_by_model (ranked ! i) \<longrightarrow>
           boosted_points (entries ! i) = base_points (entries ! i) * multiplier (entries ! i))"
    if i: "i < length ranked" for i
  proof -
    have f: "rank (entries ! i) = i + 1"
      "rider_id (entries ! i) = market_rider_id (ranked ! i)"
      "rider_name (entries ! i) = name (ranked ! i)"
      "base_points (entries ! i) = exp_points (ranked ! i) race"
      unfolding n [OF i] by (simp_all add: entry_at_def)
    have m: "multiplier (entries ! i) = rank_multiplier (i + 1)"
      unfolding n [OF i] by (rule entry_at_multiplier)
    have b: "boosted_points (entries ! i) =
          (if i < 3 then fmul (base_points (entries ! i)) (multiplier (entries ! i))
           else base_points (entries ! i) * multiplier (entries ! i))"
      unfolding f(4) m unfolding n [OF i] by (rule entry_at_boosted)
    have x: "boosted_points (entries ! i) = base_points (entries ! i) * multiplier (entries ! i)"
      if "projected_by_model (ranked ! i)"
    proof (cases "i < 3")
      case True
      from that assms have "base_points (entries ! i) \<in> {0, 1 / 2, 2, 7, 15, 28}"
        unfolding f(4) projected_by_model_def list_all_iff by blast
      moreover from True have "multiplier (entries ! i) \<in> {3, 5 / 2, 2}"
        unfolding m by (rule rank_multiplier_top)
      ultimately have "fmul (base_points (entries ! i)) (multiplier (entries ! i)) =
          base_points (entries ! i) * multiplier (entries ! i)"
        by (rule tier_times_multiplier)
      with b True show ?thesis by simp
    next
      case False
      with b show ?thesis by simp
    qed
    from f m b x show ?thesis by blast
  qed
  show ?thesis
  proof (intro exI [of _ ranked] exI [of _ entries] conjI allI impI)
    show "ranking_of team race ranked" by (rule r)
    show "map_of (calculate_kopman_strategy (Enriched team)) race = Some entries"
      unfolding entries_def using assms by (rule strategy_lookup)
    show "length entries = length ranked" by (rule l)
  qed (rule p [THEN conjunct1], assumption,
       rule p [THEN conjunct2, THEN conjunct1], assumption,
       rule p [THEN conjunct2, THEN conjunct2, THEN conjunct1], assumption,
       rule p [THEN conjunct2, THEN conjunct2, THEN conjunct2, THEN conjunct1], assumption,
       rule p [THEN conjunct2, THEN conjunct2, THEN conjunct2, THEN conjunct2, THEN conjunct1],
         assumption,
       rule p [THEN conjunct2, THEN conjunct2, THEN conjunct2, THEN conjunct2, THEN conjunct2,
         THEN conjunct1], assumption,
       rule p [THEN conjunct2, THEN conjunct2, THEN conjunct2, THEN conjunct2, THEN conjunct2,
         THEN conjunct2, THEN mp], assumption, assumption)
qed

lemma omloop_strategy:
  "race_strategy five_riders ''omloop'' =
     [\<lparr>rank = 1, rider_name = ''rider'', rider_id = 2, multiplier = 3,
        base_points = 28, boosted_points = 84\<rparr>,
      \<lparr>rank = 2, rider_name = ''rider'', rider_id = 1, multiplier = 5 / 2,
        base_points = 15, boosted_points = 75 / 2\<rparr>,
      \<lparr>rank = 3, rider_name = ''rider'', rider_id = 4, multiplier = 2,
        base_points = 15, boosted_points = 30\<rparr>,
      \<lparr>rank = 4, rider_name = ''rider'', rider_id = 3, multiplier = 1,
        base_points = 7, boosted_points = 7\<rparr>,
      \<lparr>rank = 5, rider_name = ''rider'', rider_id = 5, multiplier = 1,
        base_points = 7, boosted_points = 7\<rparr>]"
  unfolding race_strategy_entries
  by (simp add: five_riders_def row_get_race_def exp_points_def example_scored_fields
      enumerate_eq_zip upt_rec entry_at_def kopman_multiplier_def KOPMAN_MULTIPLIERS_def)
    (simp add: fl_eval)

lemma five_riders_projected: "list_all projected_by_model five_riders"
  by (simp add: five_riders_def projected_by_model_def race_names_def RACE_DISPLAY_NAMES_def
      exp_points_def example_scored_fields)

lemma example_races: "''omloop'' \<in> set race_names" "''luik'' \<in> set race_names"
  by (simp_all add: race_names_def RACE_DISPLAY_NAMES_def)

text \<open>Five starters with projections 15, 28, 7, 15, 7: two ties.\<close>

theorem c7_ranks_and_multipliers_witness:
  "''omloop'' \<in> set race_names \<and>
   list_all projected_by_model five_riders \<and>
   map_of (calculate_kopman_strategy (Enriched five_riders)) ''omloop'' =
     Some (race_strategy five_riders ''omloop'') \<and>
   map rider_id (race_strategy five_riders ''omloop'') = [2, 1, 4, 3, 5] \<and>
   map base_points (race_strategy five_riders ''omloop'') = [28, 15, 15, 7, 7] \<and>
   map multiplier (race_strategy five_riders ''omloop'') = [3, 5 / 2, 2, 1, 1] \<and>
   map boosted_points (race_strategy five_riders ''omloop'') = [84, 75 / 2, 30, 7, 7] \<and>
   multiplier (race_strategy five_riders ''omloop'' ! 4) = rank_multiplier 5 \<and>
   boosted_points (race_strategy five_riders ''omloop'' ! 2) =
     base_points (race_strategy five_riders ''omloop'' ! 2) *
     multiplier (race_strategy five_riders ''omloop'' ! 2)"
proof -
  from c7_ranks_and_multipliers [OF example_races(1), of five_riders] obtain ranked entries
    where r: "ranking_of five_riders ''omloop'' ranked"
      and e: "map_of (calculate_kopman_strategy (Enriched five_riders)) ''omloop'' = Some entries"
      and l: "length entries = length ranked"
      and p: "\<And>i. i < length ranked \<Longrightarrow>
        multiplier (entries ! i) = rank_multiplier (i + 1) \<and>
        (projected_by_model (ranked ! i) \<longrightarrow>
           boosted_points (entries ! i) = base_points (entries ! i) * multiplier (entries ! i))"
    by blast
  have s: "map_of (calculate_kopman_strategy (Enriched five_riders)) ''omloop'' =
      Some (race_strategy five_riders ''omloop'')"
    using example_races(1) by (rule strategy_lookup)
  with e have en: "entries = race_strategy five_riders ''omloop''" by simp
  with l have n: "length ranked = 5" by (simp add: omloop_strategy)
  from r have sub: "set ranked \<subseteq> set five_riders"
    unfolding ranking_of_def by (metis filter_is_subset mset_eq_setD)
  have pr: "projected_by_model (ranked ! i)" if "i < 5" for i
  proof -
    from that n have "ranked ! i \<in> set ranked" by (intro nth_mem) simp
    with \<open>set ranked \<subseteq> set five_riders\<close> five_riders_projected show ?thesis
      by (auto simp: list_all_iff)
  qed
  from p [of 4] p [of 2] pr [of 2] n
  have "multiplier (entries ! 4) = rank_multiplier 5"
    "boosted_points (entries ! 2) = base_points (entries ! 2) * multiplier (entries ! 2)"
    by simp_all
  then show ?thesis
    unfolding en using s example_races(1) five_riders_projected
    by (simp add: omloop_strategy)
qed

text \<open>An event without entries adds nothing to the total.\<close>

lemma total_without_empty:
  assumes "\<forall>(code, entries)\<in>set strategy. code = race \<longrightarrow> entries = []"
  shows "foldl (\<lambda>total (code, riders).
            foldl (\<lambda>total rider. fadd total (boosted_points rider)) total riders) acc strategy =
         foldl (\<lambda>total (code, riders).
            foldl (\<lambda>total rider. fadd total (boosted_points rider)) total riders) acc
           (filter (\<lambda>(code, entries). code \<noteq> race) strategy)"
  using assms by (induction strategy arbitrary: acc) auto

lemma race_strategy_empty:
  assumes "list_all (\<lambda>r. \<not> row_get_race r race) team"
  shows "race_strategy team race = []"
proof -
  from assms have "filter (\<lambda>r. row_get_race r race) team = []"
    by (auto simp: list_all_iff filter_empty_conv)
  then show ?thesis by (simp add: race_strategy_def)
qed

text \<open>
  Claim C8.  For a race of the catalog in which no member of the roster starts, the
  strategy holds the empty list, and the season total and the bonus are the same as
  for the strategy without that race: the race adds nothing.
\<close>

theorem c8_event_without_starters:
  assumes "race \<in> set race_names"
    and "list_all (\<lambda>r. \<not> row_get_race r race) team"
  shows "map_of (calculate_kopman_strategy (Enriched team)) race = Some [] \<and>
     calculate_team_total_with_kopmannen (Enriched team)
         (calculate_kopman_strategy (Enriched team)) =
       calculate_team_total_with_kopmannen (Enriched team)
         (filter (\<lambda>(code, entries). code \<noteq> race) (calculate_kopman_strategy (Enriched team))) \<and>
     kopman_bonus team (calculate_kopman_strategy (Enriched team)) =
       kopman_bonus team
         (filter (\<lambda>(code, entries). code \<noteq> race) (calculate_kopman_strategy (Enriched team)))"
proof -
  have e: "race_strategy team race = []" using assms(2) by (rule race_strategy_empty)
  have 1: "map_of (calculate_kopman_strategy (Enriched team)) race = Some []"
    using strategy_lookup [OF assms(1), of team] by (simp add: e)
  have "\<forall>(code, entries)\<in>set (calculate_kopman_strategy (Enriched team)).
      code = race \<longrightarrow> entries = []"
    by (auto simp: calculate_kopman_strategy_def e)
  then have 2: "calculate_team_total_with_kopmannen (Enriched team)
         (calculate_kopman_strategy (Enriched team)) =
       calculate_team_total_with_kopmannen (Enriched team)
         (filter (\<lambda>(code, entries). code \<noteq> race) (calculate_kopman_strategy (Enriched team)))"
    unfolding calculate_team_total_with_kopmannen_def by (rule total_without_empty)
  then have 3: "kopman_bonus team (calculate_kopman_strategy (Enriched team)) =
       kopman_bonus team
         (filter (\<lambda>(code, entries). code \<noteq> race) (calculate_kopman_strategy (Enriched team)))"
    by (simp add: kopman_bonus_def)
  from 1 2 3 show ?thesis by (intro conjI)
qed

lemma five_riders_total:
  "calculate_team_total_with_kopmannen (Enriched five_riders)
     (calculate_kopman_strategy (Enriched five_riders)) = 383 / 2"
  unfolding calculate_kopman_strategy_def calculate_team_total_with_kopmannen_def
    race_strategy_entries
  by (simp add: race_names_def RACE_DISPLAY_NAMES_def five_riders_def row_get_race_def
      exp_points_def example_scored_fields enumerate_eq_zip upt_rec entry_at_def
      kopman_multiplier_def KOPMAN_MULTIPLIERS_def)
    (simp add: fl_eval)

text \<open>Nobody of the five riders starts in Liege; their season total is 191.5.\<close>

theorem c8_event_without_starters_witness:
  "''luik'' \<in> set race_names \<and>
   list_all (\<lambda>r. \<not> row_get_race r ''luik'') five_riders \<and>
   map_of (calculate_kopman_strategy (Enriched five_riders)) ''luik'' = Some [] \<and>
   calculate_team_total_with_kopmannen (Enriched five_riders)
     (filter (\<lambda>(code, entries). code \<noteq> ''luik'')
        (calculate_kopman_strategy (Enriched five_riders))) = 383 / 2 \<and>
   kopman_bonus five_riders (calculate_kopman_strategy (Enriched five_riders)) =
     kopman_bonus five_riders
       (filter (\<lambda>(code, entries). code \<noteq> ''luik'')
          (calculate_kopman_strategy (Enriched five_riders)))"
proof -
  have h: "list_all (\<lambda>r. \<not> row_get_race r ''luik'') five_riders"
    by (simp add: five_riders_def row_get_race_def example_scored_fields)
  from c8_event_without_starters [OF example_races(2) h] example_races(2) h show ?thesis
    by (simp add: five_riders_total)
qed

end
